theory Spec2Isabelle
  imports Main "HOL-Library.Multiset"
begin

section \<open>PlantCare: the plant collection and its views\<close>

text \<open>
  A shallow embedding of the PlantCare application: the root component \<open>App\<close> (the plant
  collection and its four mutations), the \<open>Dashboard\<close> view, the \<open>PlantManager\<close> filter
  and the \<open>PlantForm\<close> handlers.  React state is passed explicitly: every handler takes
  the current collection and returns the one handed to \<open>setPlants\<close>.
\<close>

subsection \<open>Dates and the clock\<close>

text \<open>
  The application stores calendar dates as the strings produced by
  \<^verbatim>\<open>new Date().toISOString().split('T')[0]\<close>, that is \<open>YYYY-MM-DD\<close> in UTC.  Such a
  string is represented by the number of the day it denotes (days since 1970-01-01);
  on four-digit years the lexicographic order of the strings, which \<open>Dashboard\<close> uses, is
  the order of the day numbers, and \<^verbatim>\<open>new Date(s)\<close> of such a string is UTC midnight of
  that day.

  A JavaScript \<open>Date\<close> holds a time value, milliseconds since the epoch in UTC.
  \<open>getDate\<close> and \<open>setDate\<close> work on local time, \<open>toISOString\<close> on UTC.  The host's time
  zone is given by the two offset functions of ECMAScript's \<open>LocalTZA\<close>: the offset in
  force at a UTC instant, and the offset assigned to a local time value.  One event
  handler reads the clock once.
\<close>

type_synonym isodate = int

record clock =
  now :: int
  LocalTZA_of_utc :: "int \<Rightarrow> int"
  LocalTZA_of_local :: "int \<Rightarrow> int"

definition msPerDay :: int where
  "msPerDay = 86400000"

definition LocalTime :: "clock \<Rightarrow> int \<Rightarrow> int" where
  "LocalTime c t = t + LocalTZA_of_utc c t"

definition UTC :: "clock \<Rightarrow> int \<Rightarrow> int" where
  "UTC c t = t - LocalTZA_of_local c t"

text \<open>\<^verbatim>\<open>d.toISOString().split('T')[0]\<close> of a time value: its UTC day.\<close>

definition isoDate :: "int \<Rightarrow> isodate" where
  "isoDate t = t div msPerDay"

text \<open>
  \<^verbatim>\<open>d.setDate(d.getDate() + n)\<close>: \<open>MakeDay\<close> normalises a day of the month beyond the
  month's end, so the local time value moves by \<open>n\<close> whole days and keeps its time
  within the day; the result is converted back to UTC.
\<close>

definition setDate_getDate_plus :: "clock \<Rightarrow> int \<Rightarrow> int \<Rightarrow> int" where
  "setDate_getDate_plus c t n = UTC c (LocalTime c t + n * msPerDay)"

definition today :: "clock \<Rightarrow> isodate" where
  "today c = isoDate (now c)"

definition calculateNextWatering :: "clock \<Rightarrow> int \<Rightarrow> isodate" where
  "calculateNextWatering c frequency =
     (let nextDate = now c;
          nextDate = setDate_getDate_plus c nextDate frequency
      in isoDate nextDate)"

text \<open>A zone with a fixed offset, and Europe/Berlin around the start of summer time 2024
  (2024-03-31 01:00 UTC, when local clocks go from 02:00 to 03:00).\<close>

definition fixed_zone :: "int \<Rightarrow> int \<Rightarrow> clock" where
  "fixed_zone off t = \<lparr>now = t, LocalTZA_of_utc = (\<lambda>_. off), LocalTZA_of_local = (\<lambda>_. off)\<rparr>"

definition berlin_2024 :: "int \<Rightarrow> clock" where
  "berlin_2024 t =
     \<lparr>now = t,
      LocalTZA_of_utc = (\<lambda>u. if u < 1711846800000 then 3600000 else 7200000),
      LocalTZA_of_local = (\<lambda>l. if l < 1711854000000 then 3600000 else 7200000)\<rparr>"

text \<open>The zone's offset is the same \<open>n\<close> local days after the clock's reading as at the
  reading itself: no change of offset (such as the start or end of summer time) lies
  between them.\<close>

definition offset_unchanged :: "clock \<Rightarrow> int \<Rightarrow> bool" where
  "offset_unchanged c n \<longleftrightarrow>
     LocalTZA_of_local c (LocalTime c (now c) + n * msPerDay) = LocalTZA_of_utc c (now c)"

subsection \<open>Plant records\<close>

text \<open>The form's draft carries the descriptive fields; \<open>addPlant\<close> extends it by the
  identifier and the three dates.\<close>

record plant_draft =
  name :: string
  type :: string
  image_url :: string
  wateringFrequency :: int
  sunlight :: string
  temperature :: string
  humidity :: string
  health :: string
  "notes" :: string

record plant = plant_draft +
  plant_id :: int
  lastWatered :: isodate
  nextWatering :: isodate
  createdAt :: isodate

text \<open>The object handed to \<open>updatePlant\<close>: any subset of a plant's keys.\<close>

record updatedData =
  u_name :: "string option"
  u_type :: "string option"
  u_image_url :: "string option"
  u_wateringFrequency :: "int option"
  u_sunlight :: "string option"
  u_temperature :: "string option"
  u_humidity :: "string option"
  u_health :: "string option"
  u_notes :: "string option"
  u_plant_id :: "int option"
  u_lastWatered :: "isodate option"
  u_nextWatering :: "isodate option"
  u_createdAt :: "isodate option"

definition no_keys :: updatedData where
  "no_keys =
     \<lparr>u_name = None, u_type = None, u_image_url = None, u_wateringFrequency = None,
      u_sunlight = None, u_temperature = None, u_humidity = None, u_health = None,
      u_notes = None, u_plant_id = None, u_lastWatered = None, u_nextWatering = None,
      u_createdAt = None\<rparr>"

text \<open>One key of \<^verbatim>\<open>{ ...plant, ...updatedData }\<close>: the later spread wins where it has it.\<close>

definition key_of_spread :: "'a \<Rightarrow> 'a option \<Rightarrow> 'a" where
  "key_of_spread old new = (case new of None \<Rightarrow> old | Some v \<Rightarrow> v)"

definition spread :: "plant \<Rightarrow> updatedData \<Rightarrow> plant" where
  "spread p u =
     \<lparr>name = key_of_spread (name p) (u_name u),
      type = key_of_spread (type p) (u_type u),
      image_url = key_of_spread (image_url p) (u_image_url u),
      wateringFrequency = key_of_spread (wateringFrequency p) (u_wateringFrequency u),
      sunlight = key_of_spread (sunlight p) (u_sunlight u),
      temperature = key_of_spread (temperature p) (u_temperature u),
      humidity = key_of_spread (humidity p) (u_humidity u),
      health = key_of_spread (health p) (u_health u),
      notes = key_of_spread (notes p) (u_notes u),
      plant_id = key_of_spread (plant_id p) (u_plant_id u),
      lastWatered = key_of_spread (lastWatered p) (u_lastWatered u),
      nextWatering = key_of_spread (nextWatering p) (u_nextWatering u),
      createdAt = key_of_spread (createdAt p) (u_createdAt u)\<rparr>"

subsection \<open>App: the four mutations\<close>

definition addPlant :: "clock \<Rightarrow> plant_draft \<Rightarrow> plant list \<Rightarrow> plant list" where
  "addPlant c newPlant plants =
     (let plantWithId =
        plant_draft.extend newPlant
          (plant.fields (now c) (today c)
             (calculateNextWatering c (wateringFrequency newPlant)) (today c))
      in plants @ [plantWithId])"

definition deletePlant :: "int \<Rightarrow> plant list \<Rightarrow> plant list" where
  "deletePlant plantId plants = filter (\<lambda>plant. plant_id plant \<noteq> plantId) plants"

definition updatePlant :: "int \<Rightarrow> updatedData \<Rightarrow> plant list \<Rightarrow> plant list" where
  "updatePlant plantId u plants =
     map (\<lambda>plant. if plant_id plant = plantId then spread plant u else plant) plants"

definition waterPlant :: "clock \<Rightarrow> int \<Rightarrow> plant list \<Rightarrow> plant list" where
  "waterPlant c plantId plants =
     (case find (\<lambda>p. plant_id p = plantId) plants of
        None \<Rightarrow> plants
      | Some plant \<Rightarrow>
          updatePlant plantId
            (no_keys\<lparr>u_lastWatered := Some (today c),
                     u_nextWatering := Some (calculateNextWatering c (wateringFrequency plant))\<rparr>)
            plants)"

subsection \<open>Dashboard\<close>

record stats =
  total :: nat
  needWatering :: nat
  healthy :: nat
  warning :: nat

definition Dashboard_stats :: "clock \<Rightarrow> plant list \<Rightarrow> stats" where
  "Dashboard_stats c plants =
     \<lparr>total = length plants,
      needWatering = length (filter (\<lambda>plant. nextWatering plant \<le> today c) plants),
      healthy = length (filter (\<lambda>plant. health plant = ''Excellent'') plants),
      warning = length (filter (\<lambda>plant. health plant = ''Poor'') plants)\<rparr>"

definition plantsNeedingWater :: "clock \<Rightarrow> plant list \<Rightarrow> plant list" where
  "plantsNeedingWater c plants = filter (\<lambda>plant. nextWatering plant \<le> today c) plants"

text \<open>
  \<^verbatim>\<open>Array.prototype.sort\<close> with a comparator is stable: elements the comparator does not
  separate keep their order.  Every stable sort returns the same list for a comparator
  that is a total preorder; insertion from the right is the simplest of them.
\<close>

fun insert_sorted :: "('a \<Rightarrow> 'a \<Rightarrow> int) \<Rightarrow> 'a \<Rightarrow> 'a list \<Rightarrow> 'a list" where
  "insert_sorted cmp x [] = [x]"
| "insert_sorted cmp x (y # ys) =
     (if cmp x y \<le> 0 then x # y # ys else y # insert_sorted cmp x ys)"

fun Array_sort :: "('a \<Rightarrow> 'a \<Rightarrow> int) \<Rightarrow> 'a list \<Rightarrow> 'a list" where
  "Array_sort cmp [] = []"
| "Array_sort cmp (x # xs) = insert_sorted cmp x (Array_sort cmp xs)"

text \<open>\<^verbatim>\<open>new Date(s)\<close> of a date-only string, as a number: UTC midnight of that day.\<close>

definition Date_of_isodate :: "isodate \<Rightarrow> int" where
  "Date_of_isodate d = d * msPerDay"

definition upcoming :: "clock \<Rightarrow> plant list \<Rightarrow> plant list" where
  "upcoming c plants =
     take 5
       (Array_sort
          (\<lambda>a b. Date_of_isodate (nextWatering a) - Date_of_isodate (nextWatering b))
          (filter (\<lambda>plant. nextWatering plant > today c) plants))"

subsection \<open>Strings\<close>

text \<open>
  A string is the UTF-8 encoding of a JavaScript string, which is taken to be well
  formed (no lone surrogate): equality and the contiguous-part relation of the
  encodings are those of the strings.

  \<open>toLowerCase\<close> of a string of ASCII characters maps the letters A to Z and nothing
  else.  On a string with other characters it is the Unicode case mapping of the
  platform, which is the parameter \<open>unicode_lower\<close>.
\<close>

definition charCode :: "char \<Rightarrow> nat" where
  "charCode ch = of_char ch"




fun startsWith :: "string \<Rightarrow> string \<Rightarrow> bool" where
  "startsWith s [] = True"
| "startsWith [] (y # ys) = False"
| "startsWith (x # xs) (y # ys) = (x = y \<and> startsWith xs ys)"


text \<open>
  The white space that \<open>trim\<close> and \<open>parseInt\<close> strip: the characters of \<open>WhiteSpace\<close>
  and \<open>LineTerminator\<close>, that is U+0009 to U+000D, U+0020, U+00A0, U+1680, U+2000 to
  U+200A, U+2028, U+2029, U+202F, U+205F, U+3000 and U+FEFF, each by its encoding.
  \<open>strip\<close> removes such characters from the front for as long as one stands there.
\<close>

definition StrWhiteSpaceChars :: "string list" where
  "StrWhiteSpaceChars =
     [[CHR 0x09], [CHR 0x0A], [CHR 0x0B], [CHR 0x0C], [CHR 0x0D], [CHR 0x20],
      [CHR 0xC2, CHR 0xA0],
      [CHR 0xE1, CHR 0x9A, CHR 0x80],
      [CHR 0xE2, CHR 0x80, CHR 0x80], [CHR 0xE2, CHR 0x80, CHR 0x81],
      [CHR 0xE2, CHR 0x80, CHR 0x82], [CHR 0xE2, CHR 0x80, CHR 0x83],
      [CHR 0xE2, CHR 0x80, CHR 0x84], [CHR 0xE2, CHR 0x80, CHR 0x85],
      [CHR 0xE2, CHR 0x80, CHR 0x86], [CHR 0xE2, CHR 0x80, CHR 0x87],
      [CHR 0xE2, CHR 0x80, CHR 0x88], [CHR 0xE2, CHR 0x80, CHR 0x89],
      [CHR 0xE2, CHR 0x80, CHR 0x8A],
      [CHR 0xE2, CHR 0x80, CHR 0xA8], [CHR 0xE2, CHR 0x80, CHR 0xA9],
      [CHR 0xE2, CHR 0x80, CHR 0xAF],
      [CHR 0xE2, CHR 0x81, CHR 0x9F],
      [CHR 0xE3, CHR 0x80, CHR 0x80],
      [CHR 0xEF, CHR 0xBB, CHR 0xBF]]"

fun strip :: "string list \<Rightarrow> string \<Rightarrow> string" where
  "strip ws [] = []"
| "strip ws (c # r) =
     (case find (startsWith (c # r)) ws of
        None \<Rightarrow> c # r
      | Some w \<Rightarrow> strip ws (drop (length w - 1) r))"

definition TrimStart :: "string \<Rightarrow> string" where
  "TrimStart s = strip StrWhiteSpaceChars s"

definition TrimEnd :: "string \<Rightarrow> string" where
  "TrimEnd s = rev (strip (map rev StrWhiteSpaceChars) (rev s))"

definition trim :: "string \<Rightarrow> string" where
  "trim s = TrimEnd (TrimStart s)"

text \<open>
  \<open>parseInt\<close> without a radix: leading white space and a sign are skipped, a \<open>0x\<close>
  prefix selects radix 16, the longest run of digits is read, and no digit at all gives
  \<open>NaN\<close> (here \<open>None\<close>).  The results are taken as exact integers.
\<close>

definition digit_of :: "char \<Rightarrow> nat option" where
  "digit_of ch =
     (if 48 \<le> charCode ch \<and> charCode ch \<le> 57 then Some (charCode ch - 48)
      else if 97 \<le> charCode ch \<and> charCode ch \<le> 122 then Some (charCode ch - 87)
      else if 65 \<le> charCode ch \<and> charCode ch \<le> 90 then Some (charCode ch - 55)
      else None)"

definition isDigit :: "nat \<Rightarrow> char \<Rightarrow> bool" where
  "isDigit R ch = (case digit_of ch of None \<Rightarrow> False | Some d \<Rightarrow> d < R)"

definition mathInt :: "nat \<Rightarrow> string \<Rightarrow> nat" where
  "mathInt R Z =
     foldl (\<lambda>acc ch. acc * R + (case digit_of ch of None \<Rightarrow> 0 | Some d \<Rightarrow> d)) 0 Z"

definition parseInt :: "string \<Rightarrow> int option" where
  "parseInt inputString =
     (let S = TrimStart inputString;
          sign = (if startsWith S ''-'' then - 1 else 1 :: int);
          S = (if startsWith S ''+'' \<or> startsWith S ''-'' then drop 1 S else S);
          hex = (startsWith S ''0x'' \<or> startsWith S ''0X'');
          R = (if hex then 16 else 10 :: nat);
          S = (if hex then drop 2 S else S);
          Z = takeWhile (isDigit R) S
      in if Z = [] then None else Some (sign * int (mathInt R Z)))"

text \<open>
  What the statements below mean by a string of white space only, by two characters
  being the same letter up to case, and by a text occurring in a string without regard
  to case.  \<open>encoded_length\<close> is the length of a white space character's encoding,
  read off its first byte.
\<close>

definition white_space_only :: "string \<Rightarrow> bool" where
  "white_space_only s \<longleftrightarrow> (\<exists>ws. set ws \<subseteq> set StrWhiteSpaceChars \<and> s = concat ws)"

definition encoded_length :: "char \<Rightarrow> nat" where
  "encoded_length c = (if charCode c < 128 then 1 else if c = CHR 0xC2 then 2 else 3)"



subsection \<open>PlantManager: search and type filter\<close>


subsection \<open>PlantForm: the draft and its handlers\<close>

definition initial_formData :: plant_draft where
  "initial_formData =
     \<lparr>name = '''',
      type = ''Indoor Tropical'',
      image_url = '''',
      wateringFrequency = 7,
      sunlight = ''Bright indirect'',
      temperature = ''18-30'' @ [CHR 0xC2, CHR 0xB0] @ ''C'',
      humidity = ''Medium'',
      health = ''Good'',
      notes = ''''\<rparr>"

text \<open>The \<open>onChange\<close> handlers of the name input and of the watering-frequency input:
  \<^verbatim>\<open>handleChange('wateringFrequency', parseInt(e.target.value) || 1)\<close>, where \<open>||\<close> replaces
  \<open>NaN\<close> and \<open>0\<close>.\<close>

definition name_onChange :: "string \<Rightarrow> plant_draft \<Rightarrow> plant_draft" where
  "name_onChange v formData = formData\<lparr>name := v\<rparr>"

definition wateringFrequency_onChange :: "string \<Rightarrow> plant_draft \<Rightarrow> plant_draft" where
  "wateringFrequency_onChange v formData =
     formData\<lparr>wateringFrequency :=
       (case parseInt v of None \<Rightarrow> 1 | Some n \<Rightarrow> if n = 0 then 1 else n)\<rparr>"

text \<open>\<open>handleSubmit\<close> with the callback it was given; a non-empty string is truthy.  The
  \<open>onClose\<close> call only hides the form.\<close>

definition handleSubmit ::
    "(plant_draft \<Rightarrow> 's \<Rightarrow> 's) \<Rightarrow> plant_draft \<Rightarrow> 's \<Rightarrow> 's" where
  "handleSubmit onAddPlant formData st =
     (if trim (name formData) \<noteq> [] then onAddPlant formData st else st)"

text \<open>
  The form's controls carry constraints: the name input is \<open>required\<close>, the frequency
  input is \<^verbatim>\<open>type="number" min="1" max="30"\<close> and shows the draft's frequency, the image
  input is \<^verbatim>\<open>type="url"\<close>.  The form has no \<open>noValidate\<close>, so when the user submits, the
  browser checks the constraints first and the submit event reaches \<open>handleSubmit\<close>
  only when all hold.  Whether a non-empty text is a valid URL is decided by the
  platform's parser, the parameter \<open>valid_url\<close>.
\<close>

definition checkValidity :: "(string \<Rightarrow> bool) \<Rightarrow> plant_draft \<Rightarrow> bool" where
  "checkValidity valid_url formData \<longleftrightarrow>
     name formData \<noteq> [] \<and>
     1 \<le> wateringFrequency formData \<and> wateringFrequency formData \<le> 30 \<and>
     (image_url formData = [] \<or> valid_url (image_url formData))"

definition requestSubmit ::
    "(string \<Rightarrow> bool) \<Rightarrow> (plant_draft \<Rightarrow> 's \<Rightarrow> 's) \<Rightarrow> plant_draft \<Rightarrow> 's \<Rightarrow> 's" where
  "requestSubmit valid_url onAddPlant formData st =
     (if checkValidity valid_url formData then handleSubmit onAddPlant formData st else st)"

subsection \<open>JSON text\<close>

text \<open>
  \<open>JSON.stringify\<close> and \<open>JSON.parse\<close> on the values a collection is made of.  A number
  token with a fraction or an exponent denotes a floating-point number; it is kept as
  written (\<open>JFloat\<close>).  Object members keep the order of the text, and of two members
  with one key the later value stands at the place of the first.  The parser
  recurses on a counter that the length of the text bounds.
\<close>

datatype json =
    JNull
  | JBool bool
  | JNumber int
  | JFloat string
  | JString string
  | JArray "json list"
  | JObject "(string \<times> json) list"

definition hexDigit :: "nat \<Rightarrow> char" where
  "hexDigit d = (if d < 10 then char_of (48 + d) else char_of (87 + d))"

definition QuoteJSONChar :: "char \<Rightarrow> string" where
  "QuoteJSONChar ch =
     (if ch = CHR 0x22 then [CHR 0x5C, CHR 0x22]
      else if ch = CHR 0x5C then [CHR 0x5C, CHR 0x5C]
      else if ch = CHR 0x08 then [CHR 0x5C, CHR ''b'']
      else if ch = CHR 0x09 then [CHR 0x5C, CHR ''t'']
      else if ch = CHR 0x0A then [CHR 0x5C, CHR ''n'']
      else if ch = CHR 0x0C then [CHR 0x5C, CHR ''f'']
      else if ch = CHR 0x0D then [CHR 0x5C, CHR ''r'']
      else if charCode ch < 32 then
        [CHR 0x5C, CHR ''u'', CHR ''0'', CHR ''0'',
         hexDigit (charCode ch div 16), hexDigit (charCode ch mod 16)]
      else [ch])"

definition QuoteJSONString :: "string \<Rightarrow> string" where
  "QuoteJSONString s = CHR 0x22 # concat (map QuoteJSONChar s) @ [CHR 0x22]"

fun decimal :: "nat \<Rightarrow> string" where
  "decimal n = (if n < 10 then [hexDigit n] else decimal (n div 10) @ [hexDigit (n mod 10)])"

declare decimal.simps [simp del]

definition NumberToString :: "int \<Rightarrow> string" where
  "NumberToString i = (if i < 0 then CHR ''-'' # decimal (nat (- i)) else decimal (nat i))"

fun JSON_stringify :: "json \<Rightarrow> string"
  and stringify_elements :: "json list \<Rightarrow> string"
  and stringify_members :: "(string \<times> json) list \<Rightarrow> string"
where
  "JSON_stringify JNull = ''null''"
| "JSON_stringify (JBool b) = (if b then ''true'' else ''false'')"
| "JSON_stringify (JNumber i) = NumberToString i"
| "JSON_stringify (JFloat lexeme) = lexeme"
| "JSON_stringify (JString s) = QuoteJSONString s"
| "JSON_stringify (JArray vs) = CHR ''['' # stringify_elements vs"
| "JSON_stringify (JObject ms) = CHR ''{'' # stringify_members ms"
| "stringify_elements [] = '']''"
| "stringify_elements [v] = JSON_stringify v @ '']''"
| "stringify_elements (v # w # vs) = JSON_stringify v @ CHR '','' # stringify_elements (w # vs)"
| "stringify_members [] = ''}''"
| "stringify_members [(k, v)] = QuoteJSONString k @ CHR '':'' # JSON_stringify v @ ''}''"
| "stringify_members ((k, v) # m # ms) =
     QuoteJSONString k @ CHR '':'' # JSON_stringify v @ CHR '','' # stringify_members (m # ms)"


subsection \<open>Parsing\<close>

definition isJSONWhiteSpace :: "char \<Rightarrow> bool" where
  "isJSONWhiteSpace ch \<longleftrightarrow> ch \<in> set [CHR 0x20, CHR 0x09, CHR 0x0A, CHR 0x0D]"

definition skip_ws :: "string \<Rightarrow> string" where
  "skip_ws s = dropWhile isJSONWhiteSpace s"

definition utf8 :: "nat \<Rightarrow> string" where
  "utf8 cp =
     (if cp < 128 then [char_of cp]
      else if cp < 2048 then [char_of (192 + cp div 64), char_of (128 + cp mod 64)]
      else [char_of (224 + cp div 4096), char_of (128 + (cp div 64) mod 64),
            char_of (128 + cp mod 64)])"

definition unescape :: "char \<Rightarrow> char option" where
  "unescape e =
     (if e = CHR 0x22 \<or> e = CHR 0x5C \<or> e = CHR ''/'' then Some e
      else if e = CHR ''b'' then Some (CHR 0x08)
      else if e = CHR ''f'' then Some (CHR 0x0C)
      else if e = CHR ''n'' then Some (CHR 0x0A)
      else if e = CHR ''r'' then Some (CHR 0x0D)
      else if e = CHR ''t'' then Some (CHR 0x09)
      else None)"

function parse_chars :: "string \<Rightarrow> (string \<times> string) option" where
  "parse_chars [] = None"
| "parse_chars (c # r) =
     (if c = CHR 0x22 then Some ([], r)
      else if c = CHR 0x5C then
        (case r of
           [] \<Rightarrow> None
         | e # r' \<Rightarrow>
             if e = CHR ''u'' then
               (if 4 \<le> length r' \<and> list_all (isDigit 16) (take 4 r') then
                  (case parse_chars (drop 4 r') of
                     None \<Rightarrow> None
                   | Some (s, rest) \<Rightarrow> Some (utf8 (mathInt 16 (take 4 r')) @ s, rest))
                else None)
             else
               (case unescape e of
                  None \<Rightarrow> None
                | Some ch \<Rightarrow>
                    (case parse_chars r' of
                       None \<Rightarrow> None
                     | Some (s, rest) \<Rightarrow> Some (ch # s, rest))))
      else if charCode c < 32 then None
      else (case parse_chars r of None \<Rightarrow> None | Some (s, rest) \<Rightarrow> Some (c # s, rest)))"
  by pat_completeness auto
termination
  by (relation "measure length") auto

definition parse_int_part :: "string \<Rightarrow> (string \<times> string) option" where
  "parse_int_part s =
     (case s of
        [] \<Rightarrow> None
      | d # r \<Rightarrow>
          if d = CHR ''0'' then Some ([d], r)
          else if isDigit 10 d then Some (d # takeWhile (isDigit 10) r, dropWhile (isDigit 10) r)
          else None)"

definition parse_frac :: "string \<Rightarrow> (string \<times> string) option" where
  "parse_frac s =
     (case s of
        [] \<Rightarrow> Some ([], s)
      | c # r \<Rightarrow>
          if c = CHR ''.'' then
            (if takeWhile (isDigit 10) r = [] then None
             else Some (c # takeWhile (isDigit 10) r, dropWhile (isDigit 10) r))
          else Some ([], s))"

definition parse_exp :: "string \<Rightarrow> (string \<times> string) option" where
  "parse_exp s =
     (case s of
        [] \<Rightarrow> Some ([], s)
      | c # r \<Rightarrow>
          if c = CHR ''e'' \<or> c = CHR ''E'' then
            (let sg = (if startsWith r ''+'' \<or> startsWith r ''-'' then take 1 r else []);
                 r1 = drop (length sg) r
             in if takeWhile (isDigit 10) r1 = [] then None
                else Some (c # sg @ takeWhile (isDigit 10) r1, dropWhile (isDigit 10) r1))
          else Some ([], s))"

definition parse_number :: "string \<Rightarrow> (json \<times> string) option" where
  "parse_number s =
     (let sgn = (if startsWith s ''-'' then ''-'' else []);
          s1 = drop (length sgn) s
      in case parse_int_part s1 of
           None \<Rightarrow> None
         | Some (ip, s2) \<Rightarrow>
             (case parse_frac s2 of
                None \<Rightarrow> None
              | Some (fp, s3) \<Rightarrow>
                  (case parse_exp s3 of
                     None \<Rightarrow> None
                   | Some (ep, s4) \<Rightarrow>
                       if fp = [] \<and> ep = [] then
                         Some (JNumber (if sgn = [] then int (mathInt 10 ip)
                                        else - int (mathInt 10 ip)), s4)
                       else Some (JFloat (sgn @ ip @ fp @ ep), s4))))"

definition add_member :: "string \<Rightarrow> json \<Rightarrow> (string \<times> json) list \<Rightarrow> (string \<times> json) list" where
  "add_member k v ms =
     (k, case map_of ms k of None \<Rightarrow> v | Some v' \<Rightarrow> v') # filter (\<lambda>m. fst m \<noteq> k) ms"

fun parse_value :: "nat \<Rightarrow> string \<Rightarrow> (json \<times> string) option"
  and parse_elements :: "nat \<Rightarrow> string \<Rightarrow> (json list \<times> string) option"
  and parse_members :: "nat \<Rightarrow> string \<Rightarrow> ((string \<times> json) list \<times> string) option"
where
  "parse_value 0 s = None"
| "parse_value (Suc n) s =
     (case skip_ws s of
        [] \<Rightarrow> None
      | c # r \<Rightarrow>
          if c = CHR ''['' then
            (case skip_ws r of
               [] \<Rightarrow> None
             | c' # r' \<Rightarrow>
                 if c' = CHR '']'' then Some (JArray [], r')
                 else (case parse_elements n (c' # r') of
                         None \<Rightarrow> None
                       | Some (vs, rest) \<Rightarrow> Some (JArray vs, rest)))
          else if c = CHR ''{'' then
            (case skip_ws r of
               [] \<Rightarrow> None
             | c' # r' \<Rightarrow>
                 if c' = CHR ''}'' then Some (JObject [], r')
                 else (case parse_members n (c' # r') of
                         None \<Rightarrow> None
                       | Some (ms, rest) \<Rightarrow> Some (JObject ms, rest)))
          else if c = CHR 0x22 then
            (case parse_chars r of None \<Rightarrow> None | Some (str, rest) \<Rightarrow> Some (JString str, rest))
          else if startsWith (c # r) ''null'' then Some (JNull, drop 4 (c # r))
          else if startsWith (c # r) ''true'' then Some (JBool True, drop 4 (c # r))
          else if startsWith (c # r) ''false'' then Some (JBool False, drop 5 (c # r))
          else parse_number (c # r))"
| "parse_elements 0 s = None"
| "parse_elements (Suc n) s =
     (case parse_value n s of
        None \<Rightarrow> None
      | Some (v, r) \<Rightarrow>
          (case skip_ws r of
             [] \<Rightarrow> None
           | c # r' \<Rightarrow>
               if c = CHR '','' then
                 (case parse_elements n r' of
                    None \<Rightarrow> None
                  | Some (vs, rest) \<Rightarrow> Some (v # vs, rest))
               else if c = CHR '']'' then Some ([v], r')
               else None))"
| "parse_members 0 s = None"
| "parse_members (Suc n) s =
     (case skip_ws s of
        [] \<Rightarrow> None
      | c # r \<Rightarrow>
          if c = CHR 0x22 then
            (case parse_chars r of
               None \<Rightarrow> None
             | Some (k, r1) \<Rightarrow>
                 (case skip_ws r1 of
                    [] \<Rightarrow> None
                  | c1 # r2 \<Rightarrow>
                      if c1 = CHR '':'' then
                        (case parse_value n r2 of
                           None \<Rightarrow> None
                         | Some (v, r3) \<Rightarrow>
                             (case skip_ws r3 of
                                [] \<Rightarrow> None
                              | c3 # r4 \<Rightarrow>
                                  if c3 = CHR '','' then
                                    (case parse_members n r4 of
                                       None \<Rightarrow> None
                                     | Some (ms, rest) \<Rightarrow> Some (add_member k v ms, rest))
                                  else if c3 = CHR ''}'' then Some ([(k, v)], r4)
                                  else None))
                      else None))
          else None)"

definition JSON_parse :: "string \<Rightarrow> json option" where
  "JSON_parse text =
     (case parse_value (length text) text of
        None \<Rightarrow> None
      | Some (v, rest) \<Rightarrow> if skip_ws rest = [] then Some v else None)"

text \<open>
  The values the round trip is stated for: no \<open>JFloat\<close>, and the keys of every object
  distinct, as the keys of a JavaScript object are.  The other predicates say how a
  text may continue after a number or a value, and how a value starts.
\<close>

fun representable :: "json \<Rightarrow> bool" where
  "representable (JFloat lexeme) = False"
| "representable (JArray vs) = (\<forall>v \<in> set vs. representable v)"
| "representable (JObject ms) =
     (distinct (map fst ms) \<and> (\<forall>m \<in> set ms. representable (snd m)))"
| "representable v = True"

definition value_end :: "string \<Rightarrow> bool" where
  "value_end rest \<longleftrightarrow>
     (case rest of [] \<Rightarrow> True | c # _ \<Rightarrow> c = CHR '','' \<or> c = CHR '']'' \<or> c = CHR ''}'')"

definition number_end :: "string \<Rightarrow> bool" where
  "number_end rest \<longleftrightarrow>
     (case rest of [] \<Rightarrow> True
      | c # _ \<Rightarrow> \<not> isDigit 10 c \<and> c \<noteq> CHR ''.'' \<and> c \<noteq> CHR ''e'' \<and> c \<noteq> CHR ''E'')"

text \<open>The first character of a printed value starts a value: it is neither white space
  nor a closing bracket.\<close>

definition value_start :: "string \<Rightarrow> bool" where
  "value_start s \<longleftrightarrow>
     (case s of [] \<Rightarrow> False
      | c # _ \<Rightarrow> \<not> isJSONWhiteSpace c \<and> c \<noteq> CHR '']'' \<and> c \<noteq> CHR ''}'')"

subsection \<open>App: loading and persisting the collection\<close>

text \<open>
  \<open>localStorage\<close> maps keys to texts; \<open>getItem\<close> of a missing key is \<open>null\<close> (here \<open>None\<close>).
  The load effect hands its result to \<open>setPlants\<close>; an exception thrown by \<open>JSON.parse\<close>
  is not caught and leaves the effect.  The empty text is falsy.  The seed
  \<open>samplePlants\<close> is imported from a data file and is a parameter here.
\<close>

datatype exn = SyntaxError

definition storage_key :: string where
  "storage_key = ''plantcare-plants''"

definition load_effect :: "json \<Rightarrow> (string \<rightharpoonup> string) \<Rightarrow> exn + json" where
  "load_effect samplePlants localStorage =
     (case localStorage storage_key of
        None \<Rightarrow> Inr samplePlants
      | Some savedPlants \<Rightarrow>
          if savedPlants \<noteq> [] then
            (case JSON_parse savedPlants of None \<Rightarrow> Inl SyntaxError | Some v \<Rightarrow> Inr v)
          else Inr samplePlants)"

definition persist_effect :: "json \<Rightarrow> (string \<rightharpoonup> string) \<Rightarrow> (string \<rightharpoonup> string)" where
  "persist_effect plants localStorage = localStorage(storage_key \<mapsto> JSON_stringify plants)"

text \<open>The JSON value of a plant record, its keys in the order \<open>addPlant\<close> creates them;
  \<open>date_text\<close> gives the text \<open>YYYY-MM-DD\<close> of a day.\<close>

definition json_of_plant :: "(isodate \<Rightarrow> string) \<Rightarrow> plant \<Rightarrow> json" where
  "json_of_plant date_text p =
     JObject
       [(''name'', JString (name p)),
        (''type'', JString (type p)),
        (''image'', JString (image_url p)),
        (''wateringFrequency'', JNumber (wateringFrequency p)),
        (''sunlight'', JString (sunlight p)),
        (''temperature'', JString (temperature p)),
        (''humidity'', JString (humidity p)),
        (''health'', JString (health p)),
        (''notes'', JString (notes p)),
        (''id'', JNumber (plant_id p)),
        (''lastWatered'', JString (date_text (lastWatered p))),
        (''nextWatering'', JString (date_text (nextWatering p))),
        (''createdAt'', JString (date_text (createdAt p)))]"

definition json_of_plants :: "(isodate \<Rightarrow> string) \<Rightarrow> plant list \<Rightarrow> json" where
  "json_of_plants date_text plants = JArray (map (json_of_plant date_text) plants)"

text \<open>Modelled from the spec: the fixed sample dataset of \<open>data/samplePlants.js\<close>, which is
  not among the sources.  A non-empty array of plant objects stands for it where a
  concrete seed is needed.\<close>

definition example_seed :: json where
  "example_seed = JArray [JObject [(''id'', JNumber 1), (''name'', JString ''Monstera'')]]"

subsection \<open>Example data\<close>

text \<open>A plant with the given id, name, type, watering frequency and next-watering day,
  last watered one period earlier; used to run the operations on concrete collections.\<close>

definition example_plant :: "int \<Rightarrow> string \<Rightarrow> string \<Rightarrow> int \<Rightarrow> isodate \<Rightarrow> plant" where
  "example_plant i n t f d =
     \<lparr>name = n, type = t, image_url = '''', wateringFrequency = f, sunlight = ''Medium'',
      temperature = '''', humidity = ''Medium'', health = ''Good'', notes = '''',
      plant_id = i, lastWatered = d - f, nextWatering = d, createdAt = d - f\<rparr>"

section \<open>Properties\<close>

subsection \<open>updatePlant\<close>

lemma updatePlant_length: "length (updatePlant i u ps) = length ps"
  by (simp add: updatePlant_def)

text \<open>
  C10.  When no entry of the collection has the given id, \<open>updatePlant\<close> returns the
  collection unchanged, whatever the supplied fields are.
\<close>

theorem updatePlant_absent_id_noop:
  assumes "\<forall>p \<in> set plants. plant_id p \<noteq> plantId"
  shows "updatePlant plantId u plants = plants"
  using assms by (simp add: updatePlant_def map_idI)

theorem updatePlant_absent_id_noop_witness:
  "7 \<notin> set (map plant_id [example_plant 1 ''Rose'' ''Flowering'' 3 10,
                              example_plant 2 ''Basil'' ''Herb'' 2 11]) \<and>
   updatePlant 7 (no_keys\<lparr>u_name := Some ''Tulip''\<rparr>)
     [example_plant 1 ''Rose'' ''Flowering'' 3 10, example_plant 2 ''Basil'' ''Herb'' 2 11] =
   [example_plant 1 ''Rose'' ''Flowering'' 3 10, example_plant 2 ''Basil'' ''Herb'' 2 11]"
proof -
  have h: "\<forall>p \<in> set [example_plant 1 ''Rose'' ''Flowering'' 3 10,
                        example_plant 2 ''Basil'' ''Herb'' 2 11]. plant_id p \<noteq> 7"
    by (simp add: example_plant_def)
  show ?thesis
    using updatePlant_absent_id_noop [OF h, of "no_keys\<lparr>u_name := Some ''Tulip''\<rparr>"]
    by (simp add: example_plant_def)
qed

text \<open>
  C5.  \<open>updatePlant\<close> keeps the length and the positions of the collection.  An entry
  with another id is returned as it was.  In an entry with the given id every field
  that the supplied object has takes the supplied value, and every field it does not
  have keeps its value.
\<close>

theorem updatePlant_merges_supplied_fields:
  assumes "i < length plants"
  shows "length (updatePlant plantId u plants) = length plants \<and>
    (plant_id (plants ! i) \<noteq> plantId \<longrightarrow> updatePlant plantId u plants ! i = plants ! i) \<and>
    (plant_id (plants ! i) = plantId \<longrightarrow>
       name (updatePlant plantId u plants ! i) =
         (case u_name u of Some v \<Rightarrow> v | None \<Rightarrow> name (plants ! i)) \<and>
       type (updatePlant plantId u plants ! i) =
         (case u_type u of Some v \<Rightarrow> v | None \<Rightarrow> type (plants ! i)) \<and>
       image_url (updatePlant plantId u plants ! i) =
         (case u_image_url u of Some v \<Rightarrow> v | None \<Rightarrow> image_url (plants ! i)) \<and>
       wateringFrequency (updatePlant plantId u plants ! i) =
         (case u_wateringFrequency u of Some v \<Rightarrow> v | None \<Rightarrow> wateringFrequency (plants ! i)) \<and>
       sunlight (updatePlant plantId u plants ! i) =
         (case u_sunlight u of Some v \<Rightarrow> v | None \<Rightarrow> sunlight (plants ! i)) \<and>
       temperature (updatePlant plantId u plants ! i) =
         (case u_temperature u of Some v \<Rightarrow> v | None \<Rightarrow> temperature (plants ! i)) \<and>
       humidity (updatePlant plantId u plants ! i) =
         (case u_humidity u of Some v \<Rightarrow> v | None \<Rightarrow> humidity (plants ! i)) \<and>
       health (updatePlant plantId u plants ! i) =
         (case u_health u of Some v \<Rightarrow> v | None \<Rightarrow> health (plants ! i)) \<and>
       notes (updatePlant plantId u plants ! i) =
         (case u_notes u of Some v \<Rightarrow> v | None \<Rightarrow> notes (plants ! i)) \<and>
       plant_id (updatePlant plantId u plants ! i) =
         (case u_plant_id u of Some v \<Rightarrow> v | None \<Rightarrow> plant_id (plants ! i)) \<and>
       lastWatered (updatePlant plantId u plants ! i) =
         (case u_lastWatered u of Some v \<Rightarrow> v | None \<Rightarrow> lastWatered (plants ! i)) \<and>
       nextWatering (updatePlant plantId u plants ! i) =
         (case u_nextWatering u of Some v \<Rightarrow> v | None \<Rightarrow> nextWatering (plants ! i)) \<and>
       createdAt (updatePlant plantId u plants ! i) =
         (case u_createdAt u of Some v \<Rightarrow> v | None \<Rightarrow> createdAt (plants ! i)))"
proof -
  have nth: "updatePlant plantId u plants ! i =
      (if plant_id (plants ! i) = plantId then spread (plants ! i) u else plants ! i)"
    using assms by (simp add: updatePlant_def)
  show ?thesis
    by (auto simp add: nth updatePlant_length spread_def key_of_spread_def)
qed

theorem updatePlant_merges_supplied_fields_witness:
  "updatePlant 2 (no_keys\<lparr>u_name := Some ''Sweet basil'', u_health := Some ''Poor''\<rparr>)
     [example_plant 1 ''Rose'' ''Flowering'' 3 10, example_plant 2 ''Basil'' ''Herb'' 2 11] ! 1 =
   (example_plant 2 ''Basil'' ''Herb'' 2 11)\<lparr>name := ''Sweet basil'', health := ''Poor''\<rparr> \<and>
   updatePlant 2 (no_keys\<lparr>u_name := Some ''Sweet basil'', u_health := Some ''Poor''\<rparr>)
     [example_plant 1 ''Rose'' ''Flowering'' 3 10, example_plant 2 ''Basil'' ''Herb'' 2 11] ! 0 =
   example_plant 1 ''Rose'' ''Flowering'' 3 10"
proof -
  let ?ps = "[example_plant 1 ''Rose'' ''Flowering'' 3 10, example_plant 2 ''Basil'' ''Herb'' 2 11]"
  let ?u = "no_keys\<lparr>u_name := Some ''Sweet basil'', u_health := Some ''Poor''\<rparr>"
  have l0: "(0::nat) < length ?ps" and l1: "(1::nat) < length ?ps"
    by simp_all
  have a: "updatePlant 2 ?u ?ps ! 0 = example_plant 1 ''Rose'' ''Flowering'' 3 10"
    using updatePlant_merges_supplied_fields [OF l0, of 2 ?u]
    by (simp add: example_plant_def)
  have b: "updatePlant 2 ?u ?ps ! 1 =
      (example_plant 2 ''Basil'' ''Herb'' 2 11)\<lparr>name := ''Sweet basil'', health := ''Poor''\<rparr>"
    using updatePlant_merges_supplied_fields [OF l1, of 2 ?u]
    by (simp add: example_plant_def no_keys_def)
  from a b show ?thesis by simp
qed

subsection \<open>deletePlant\<close>

lemma deletePlant_absent: "plantId \<notin> plant_id ` set plants \<Longrightarrow> deletePlant plantId plants = plants"
  by (induction plants) (auto simp: deletePlant_def)

text \<open>
  C6.  In a collection whose ids are distinct, \<open>deletePlant\<close> of the id of an entry
  returns the entries before it followed by the entries after it, each as it was and in
  the same order; \<open>deletePlant\<close> of an id that no entry has returns the collection
  unchanged.
\<close>

theorem deletePlant_removes_exactly:
  assumes "distinct (map plant_id plants)"
  shows "(plantId \<notin> plant_id ` set plants \<longrightarrow> deletePlant plantId plants = plants) \<and>
         (\<forall>xs p ys. plants = xs @ p # ys \<and> plant_id p = plantId \<longrightarrow>
            deletePlant plantId plants = xs @ ys)"
proof (intro conjI allI impI)
  assume "plantId \<notin> plant_id ` set plants"
  then show "deletePlant plantId plants = plants"
    by (rule deletePlant_absent)
next
  fix xs p ys
  assume h: "plants = xs @ p # ys \<and> plant_id p = plantId"
  with assms have "plantId \<notin> plant_id ` set xs" and "plantId \<notin> plant_id ` set ys"
    by auto
  then have "deletePlant plantId xs = xs" and "deletePlant plantId ys = ys"
    by (simp_all add: deletePlant_absent)
  with h show "deletePlant plantId plants = xs @ ys"
    by (simp add: deletePlant_def)
qed

theorem deletePlant_removes_exactly_witness:
  "distinct (map plant_id [example_plant 1 ''Rose'' ''Flowering'' 3 10,
      example_plant 2 ''Basil'' ''Herb'' 2 11, example_plant 3 ''Fern'' ''Fern'' 5 12]) \<and>
   deletePlant 2 [example_plant 1 ''Rose'' ''Flowering'' 3 10,
      example_plant 2 ''Basil'' ''Herb'' 2 11, example_plant 3 ''Fern'' ''Fern'' 5 12] =
   [example_plant 1 ''Rose'' ''Flowering'' 3 10, example_plant 3 ''Fern'' ''Fern'' 5 12]"
proof -
  let ?a = "example_plant 1 ''Rose'' ''Flowering'' 3 10"
  let ?b = "example_plant 2 ''Basil'' ''Herb'' 2 11"
  let ?c = "example_plant 3 ''Fern'' ''Fern'' 5 12"
  have h: "distinct (map plant_id [?a, ?b, ?c])"
    by (simp add: example_plant_def)
  have "[?a, ?b, ?c] = [?a] @ ?b # [?c] \<and> plant_id ?b = 2"
    by (simp add: example_plant_def)
  with deletePlant_removes_exactly [OF h, of 2]
  have "deletePlant 2 [?a, ?b, ?c] = [?a] @ [?c]"
    by blast
  with h show ?thesis by simp
qed

subsection \<open>Dashboard\<close>

lemma insert_sorted_insort_key:
  assumes "\<And>a b. cmp a b \<le> 0 \<longleftrightarrow> key a \<le> key b"
  shows "insert_sorted cmp x ys = insort_key key x ys"
  by (induction ys) (simp_all add: assms)

lemma Array_sort_sort_key:
  assumes "\<And>a b. cmp a b \<le> 0 \<longleftrightarrow> key a \<le> key b"
  shows "Array_sort cmp xs = sort_key key xs"
  by (induction xs) (simp_all add: insert_sorted_insort_key [OF assms])

lemma upcoming_sort_key:
  "upcoming c plants =
     take 5 (sort_key nextWatering (filter (\<lambda>p. nextWatering p > today c) plants))"
  unfolding upcoming_def
  by (subst Array_sort_sort_key [where key = nextWatering])
     (simp_all add: Date_of_isodate_def msPerDay_def)

lemma sorted_take_map: "sorted (map f xs) \<Longrightarrow> sorted (map f (take n xs))"
  by (simp flip: take_map)

text \<open>
  C8.  For every collection and every clock, hence every value of \<open>today\<close>: the
  need-watering count is the number of positions whose entry has
  \<open>nextWatering \<le> today\<close>, and the due list holds those entries in collection order;
  for the empty collection the count is 0 and both lists are empty.  The upcoming list
  is the first five entries of the entries with \<open>nextWatering > today\<close> sorted stably
  by \<open>nextWatering\<close>: it is ascending, has at most five entries, and holds only such
  entries.
\<close>

theorem Dashboard_due_count_and_upcoming:
  "needWatering (Dashboard_stats c plants) =
     card {i. i < length plants \<and> nextWatering (plants ! i) \<le> today c} \<and>
   plantsNeedingWater c plants = filter (\<lambda>p. nextWatering p \<le> today c) plants \<and>
   needWatering (Dashboard_stats c []) = 0 \<and>
   plantsNeedingWater c [] = [] \<and>
   upcoming c [] = [] \<and>
   upcoming c plants =
     take 5 (sort_key nextWatering (filter (\<lambda>p. nextWatering p > today c) plants)) \<and>
   sorted (map nextWatering (upcoming c plants)) \<and>
   length (upcoming c plants) =
     min 5 (length (filter (\<lambda>p. nextWatering p > today c) plants)) \<and>
   mset (upcoming c plants) \<subseteq># mset (filter (\<lambda>p. nextWatering p > today c) plants)"
proof -
  let ?later = "filter (\<lambda>p. nextWatering p > today c) plants"
  have count: "needWatering (Dashboard_stats c plants) =
      card {i. i < length plants \<and> nextWatering (plants ! i) \<le> today c}"
    by (simp add: Dashboard_stats_def length_filter_conv_card)
  have empty: "needWatering (Dashboard_stats c []) = 0" "plantsNeedingWater c [] = []"
      "upcoming c [] = []"
    by (simp_all add: Dashboard_stats_def plantsNeedingWater_def upcoming_def)
  have srt: "sorted (map nextWatering (upcoming c plants))"
    unfolding upcoming_sort_key by (rule sorted_take_map) simp
  have len: "length (upcoming c plants) = min 5 (length ?later)"
    unfolding upcoming_sort_key by (simp add: min.commute)
  have "mset (take 5 (sort_key nextWatering ?later)) \<subseteq># mset (sort_key nextWatering ?later)"
    by (metis append_take_drop_id mset_append mset_subset_eq_add_left)
  then have sub: "mset (upcoming c plants) \<subseteq># mset ?later"
    unfolding upcoming_sort_key by simp
  from count empty srt len sub show ?thesis
    by (simp add: plantsNeedingWater_def upcoming_sort_key)
qed

subsection \<open>PlantManager\<close>

lemma startsWith_iff: "startsWith s t \<longleftrightarrow> (\<exists>ss. s = t @ ss)"
  by (induction s t rule: startsWith.induct) auto


lemma charCode_char_of: "n < 256 \<Longrightarrow> charCode (char_of n) = n"
  by (simp add: charCode_def)

lemma char_eq_iff: "a = b \<longleftrightarrow> charCode a = charCode b"
  by (auto simp add: charCode_def)









subsection \<open>PlantForm\<close>

lemma StrWhiteSpaceChars_lengths:
  "list_all (\<lambda>w. w \<noteq> [] \<and> length w = encoded_length (hd w)) StrWhiteSpaceChars"
  by (simp add: StrWhiteSpaceChars_def encoded_length_def charCode_def)

lemma StrWhiteSpaceChar_nonempty: "w \<in> set StrWhiteSpaceChars \<Longrightarrow> w \<noteq> []"
  using StrWhiteSpaceChars_lengths unfolding list_all_iff by blast

lemma StrWhiteSpaceChar_length:
  "w \<in> set StrWhiteSpaceChars \<Longrightarrow> length w = encoded_length (hd w)"
  using StrWhiteSpaceChars_lengths unfolding list_all_iff by blast

lemma find_unique:
  assumes "w \<in> set ws" and "P w" and "\<And>v. v \<in> set ws \<Longrightarrow> P v \<Longrightarrow> v = w"
  shows "find P ws = Some w"
  using assms(1,3)
proof (induction ws)
  case Nil
  then show ?case by simp
next
  case (Cons x xs)
  show ?case
  proof (cases "P x")
    case True
    then have "x = w" by (simp add: Cons.prems(2))
    with True show ?thesis by simp
  next
    case False
    with Cons.prems(1) assms(2) have "w \<in> set xs" by auto
    then have "find P xs = Some w"
      by (rule Cons.IH) (simp add: Cons.prems(2))
    with False show ?thesis by simp
  qed
qed

lemma find_StrWhiteSpaceChars:
  assumes "w \<in> set StrWhiteSpaceChars"
  shows "find (startsWith (w @ r)) StrWhiteSpaceChars = Some w"
proof (rule find_unique [OF assms])
  show "startsWith (w @ r) w"
    by (simp add: startsWith_iff)
next
  fix v
  assume v: "v \<in> set StrWhiteSpaceChars" and "startsWith (w @ r) v"
  then obtain ss where eq: "w @ r = v @ ss"
    by (auto simp add: startsWith_iff)
  from v assms have ne: "v \<noteq> []" "w \<noteq> []"
      and len: "length v = encoded_length (hd v)" "length w = encoded_length (hd w)"
    by (simp_all add: StrWhiteSpaceChar_nonempty StrWhiteSpaceChar_length)
  from eq ne have "hd v = hd w"
    by (cases v; cases w) auto
  with len have "length v = length w" by simp
  with eq show "v = w" by simp
qed

lemma strip_StrWhiteSpaceChar:
  assumes "w \<in> set StrWhiteSpaceChars"
  shows "strip StrWhiteSpaceChars (w @ r) = strip StrWhiteSpaceChars r"
proof -
  from assms have "w \<noteq> []"
    by (rule StrWhiteSpaceChar_nonempty)
  then obtain c w' where w: "w = c # w'" by (cases w) auto
  have "find (startsWith (c # w' @ r)) StrWhiteSpaceChars = Some w"
    using find_StrWhiteSpaceChars [OF assms, of r] by (simp add: w)
  then show ?thesis
    by (simp add: w)
qed

lemma strip_white_space_only:
  assumes "set ws \<subseteq> set StrWhiteSpaceChars"
  shows "strip StrWhiteSpaceChars (concat ws) = []"
  using assms by (induction ws) (simp_all add: strip_StrWhiteSpaceChar)

lemma strip_empty_concat:
  assumes "strip ws s = []" and "[] \<notin> set ws"
  shows "\<exists>xs. set xs \<subseteq> set ws \<and> s = concat xs"
  using assms
proof (induction ws s rule: strip.induct)
  case (1 ws)
  have "set [] \<subseteq> set ws \<and> [] = concat ([] :: string list)" by simp
  then show ?case by blast
next
  case (2 ws c r)
  show ?case
  proof (cases "find (startsWith (c # r)) ws")
    case None
    with 2(2) show ?thesis by simp
  next
    case (Some w)
    then have w: "w \<in> set ws" "startsWith (c # r) w"
      by (auto simp add: find_Some_iff)
    with 2(3) have "w \<noteq> []" by auto
    with w(2) obtain ss where ss: "c # r = w @ ss"
      by (auto simp add: startsWith_iff)
    with \<open>w \<noteq> []\<close> have drop: "drop (length w - 1) r = ss"
      by (cases w) auto
    from 2(2) Some have "strip ws (drop (length w - 1) r) = []" by simp
    with 2(1) [OF Some] 2(3) obtain xs where "set xs \<subseteq> set ws" "ss = concat xs"
      using drop by auto
    with w(1) ss have "set (w # xs) \<subseteq> set ws \<and> c # r = concat (w # xs)" by simp
    then show ?thesis by blast
  qed
qed

lemma strip_idem: "strip ws (strip ws s) = strip ws s"
proof (induction ws s rule: strip.induct)
  case (1 ws)
  show ?case by simp
next
  case (2 ws c r)
  show ?case
  proof (cases "find (startsWith (c # r)) ws")
    case None
    then show ?thesis by simp
  next
    case (Some w)
    with 2 show ?thesis by simp
  qed
qed

lemma trim_empty_iff: "trim s = [] \<longleftrightarrow> white_space_only s"
proof
  assume "white_space_only s"
  then have "TrimStart s = []"
    by (auto simp add: white_space_only_def TrimStart_def strip_white_space_only)
  then show "trim s = []"
    by (simp add: trim_def TrimEnd_def)
next
  assume "trim s = []"
  then have "strip (map rev StrWhiteSpaceChars) (rev (TrimStart s)) = []"
    by (simp add: trim_def TrimEnd_def)
  moreover have "[] \<notin> set (map rev StrWhiteSpaceChars)"
    using StrWhiteSpaceChar_nonempty by fastforce
  ultimately obtain xs where xs: "set xs \<subseteq> set (map rev StrWhiteSpaceChars)"
      "rev (TrimStart s) = concat xs"
    using strip_empty_concat by blast
  then have "TrimStart s = concat (map rev (rev xs))"
    by (metis rev_concat rev_rev_ident)
  moreover have "set (map rev (rev xs)) \<subseteq> set StrWhiteSpaceChars"
  proof
    fix x assume "x \<in> set (map rev (rev xs))"
    then obtain y where y: "y \<in> set xs" "x = rev y" by auto
    with xs(1) obtain w where "w \<in> set StrWhiteSpaceChars" "y = rev w" by auto
    with y show "x \<in> set StrWhiteSpaceChars" by simp
  qed
  ultimately have "strip StrWhiteSpaceChars (TrimStart s) = []"
    by (simp add: strip_white_space_only)
  then have start: "TrimStart s = []"
    by (simp add: TrimStart_def strip_idem)
  have "[] \<notin> set StrWhiteSpaceChars"
    using StrWhiteSpaceChar_nonempty by blast
  with start strip_empty_concat [of StrWhiteSpaceChars s]
  show "white_space_only s"
    unfolding white_space_only_def TrimStart_def by blast
qed

lemma handleSubmit_white_space_only:
  "handleSubmit onAddPlant formData st =
     (if white_space_only (name formData) then st else onAddPlant formData st)"
  by (simp add: handleSubmit_def trim_empty_iff)

lemma white_space_only_Nil: "white_space_only []"
  unfolding white_space_only_def
proof (intro exI conjI)
  show "set [] \<subseteq> set StrWhiteSpaceChars" by simp
  show "[] = concat ([] :: string list)" by simp
qed

text \<open>
  C7, as the form stands.  With a name given and the text 45 typed into the frequency
  input, the draft holds the frequency 45: it is neither clamped into 1..30 nor
  replaced by 1.  The submission is then stopped by the range check of the input, and
  no plant is added.
\<close>

theorem PlantForm_frequency_45_kept_and_blocked:
  "wateringFrequency
     (wateringFrequency_onChange ''45'' (name_onChange ''Fern'' initial_formData)) = 45 \<and>
   requestSubmit (\<lambda>u. True) (addPlant (fixed_zone 0 0))
     (wateringFrequency_onChange ''45'' (name_onChange ''Fern'' initial_formData)) [] = []"
  by code_simp

text \<open>
  C7, amended.  A name that is empty or consists of white space only blocks the
  submission: the callback is not called and the state is returned as it was, by
  \<open>handleSubmit\<close> and so by the form.  A draft whose frequency lies outside 1..30, or
  whose image address is given and is not a URL, blocks the submission as well.  Every
  other draft is passed to the callback as it stands.  The frequency input stores 1
  when its text does not start with an integer or the integer is 0, and stores every
  other integer unchanged, whether or not it lies in 1..30.
\<close>

theorem PlantForm_submission_guards_frequency_default:
  "(white_space_only (name formData) \<longrightarrow>
      handleSubmit onAddPlant formData st = st \<and>
      requestSubmit valid_url onAddPlant formData st = st) \<and>
   (\<not> white_space_only (name formData) \<longrightarrow>
      handleSubmit onAddPlant formData st = onAddPlant formData st) \<and>
   (wateringFrequency formData < 1 \<or> 30 < wateringFrequency formData \<longrightarrow>
      requestSubmit valid_url onAddPlant formData st = st) \<and>
   (image_url formData \<noteq> [] \<and> \<not> valid_url (image_url formData) \<longrightarrow>
      requestSubmit valid_url onAddPlant formData st = st) \<and>
   (\<not> white_space_only (name formData) \<and>
    1 \<le> wateringFrequency formData \<and> wateringFrequency formData \<le> 30 \<and>
    (image_url formData = [] \<or> valid_url (image_url formData)) \<longrightarrow>
      requestSubmit valid_url onAddPlant formData st = onAddPlant formData st) \<and>
   (parseInt v = None \<or> parseInt v = Some 0 \<longrightarrow>
      wateringFrequency (wateringFrequency_onChange v formData) = 1) \<and>
   (\<forall>n. parseInt v = Some n \<and> n \<noteq> 0 \<longrightarrow>
      wateringFrequency (wateringFrequency_onChange v formData) = n) \<and>
   name (wateringFrequency_onChange v formData) = name formData"
proof -
  have a: "white_space_only (name formData) \<longrightarrow>
      handleSubmit onAddPlant formData st = st \<and>
      requestSubmit valid_url onAddPlant formData st = st"
    by (simp add: requestSubmit_def handleSubmit_white_space_only)
  have b: "\<not> white_space_only (name formData) \<longrightarrow>
      handleSubmit onAddPlant formData st = onAddPlant formData st"
    by (simp add: handleSubmit_white_space_only)
  have c: "wateringFrequency formData < 1 \<or> 30 < wateringFrequency formData \<longrightarrow>
      requestSubmit valid_url onAddPlant formData st = st"
    by (auto simp add: requestSubmit_def checkValidity_def)
  have d: "image_url formData \<noteq> [] \<and> \<not> valid_url (image_url formData) \<longrightarrow>
      requestSubmit valid_url onAddPlant formData st = st"
    by (simp add: requestSubmit_def checkValidity_def)
  have e: "\<not> white_space_only (name formData) \<and>
      1 \<le> wateringFrequency formData \<and> wateringFrequency formData \<le> 30 \<and>
      (image_url formData = [] \<or> valid_url (image_url formData)) \<longrightarrow>
      requestSubmit valid_url onAddPlant formData st = onAddPlant formData st"
  proof
    assume h: "\<not> white_space_only (name formData) \<and>
      1 \<le> wateringFrequency formData \<and> wateringFrequency formData \<le> 30 \<and>
      (image_url formData = [] \<or> valid_url (image_url formData))"
    then have "name formData \<noteq> []"
      using white_space_only_Nil by auto
    with h have "checkValidity valid_url formData"
      by (simp add: checkValidity_def)
    with h show "requestSubmit valid_url onAddPlant formData st = onAddPlant formData st"
      by (simp add: requestSubmit_def handleSubmit_white_space_only)
  qed
  have f: "parseInt v = None \<or> parseInt v = Some 0 \<longrightarrow>
      wateringFrequency (wateringFrequency_onChange v formData) = 1"
    by (auto simp add: wateringFrequency_onChange_def)
  have g: "\<forall>n. parseInt v = Some n \<and> n \<noteq> 0 \<longrightarrow>
      wateringFrequency (wateringFrequency_onChange v formData) = n"
    by (simp add: wateringFrequency_onChange_def)
  have i: "name (wateringFrequency_onChange v formData) = name formData"
    by (simp add: wateringFrequency_onChange_def)
  from a b c d e f g i show ?thesis by (intro conjI)
qed

theorem PlantForm_submission_guards_frequency_default_witness:
  "handleSubmit (addPlant (fixed_zone 0 0))
     (name_onChange [CHR 0xC2, CHR 0xA0] initial_formData) [] = [] \<and>
   requestSubmit (\<lambda>u. True) (addPlant (fixed_zone 0 0))
     (name_onChange [CHR 0xC2, CHR 0xA0] initial_formData) [] = [] \<and>
   requestSubmit (\<lambda>u. True) (addPlant (fixed_zone 0 0))
     (wateringFrequency_onChange ''-5'' (name_onChange ''Fern'' initial_formData)) [] = [] \<and>
   requestSubmit (\<lambda>u. True) (addPlant (fixed_zone 0 0))
     (name_onChange ''Fern'' initial_formData) [] =
     addPlant (fixed_zone 0 0) (name_onChange ''Fern'' initial_formData) [] \<and>
   wateringFrequency (wateringFrequency_onChange ''abc'' initial_formData) = 1 \<and>
   wateringFrequency (wateringFrequency_onChange ''12'' initial_formData) = 12 \<and>
   wateringFrequency (wateringFrequency_onChange ''-5'' initial_formData) = - 5"
proof -
  let ?add = "addPlant (fixed_zone 0 0)"
  let ?url = "\<lambda>u :: string. True"
  let ?blank = "name_onChange [CHR 0xC2, CHR 0xA0] initial_formData"
  let ?fern = "name_onChange ''Fern'' initial_formData"
  let ?minus = "wateringFrequency_onChange ''-5'' ?fern"
  have "set [[CHR 0xC2, CHR 0xA0]] \<subseteq> set StrWhiteSpaceChars \<and>
      [CHR 0xC2, CHR 0xA0] = concat [[CHR 0xC2, CHR 0xA0]]"
    by (simp add: StrWhiteSpaceChars_def)
  then have "white_space_only [CHR 0xC2, CHR 0xA0]"
    unfolding white_space_only_def by (rule exI)
  then have blank: "white_space_only (name ?blank)"
    by (simp add: name_onChange_def)
  have "trim ''Fern'' \<noteq> []"
    by code_simp
  then have "\<not> white_space_only ''Fern''"
    by (simp add: trim_empty_iff)
  then have fern: "\<not> white_space_only (name ?fern) \<and>
      1 \<le> wateringFrequency ?fern \<and> wateringFrequency ?fern \<le> 30 \<and>
      (image_url ?fern = [] \<or> ?url (image_url ?fern))"
    by (simp add: name_onChange_def initial_formData_def)
  have low: "wateringFrequency ?minus < 1 \<or> 30 < wateringFrequency ?minus"
    by code_simp
  have abc: "parseInt ''abc'' = None \<or> parseInt ''abc'' = Some 0"
    by code_simp
  have twelve: "parseInt ''12'' = Some 12 \<and> (12::int) \<noteq> 0"
    by code_simp
  have minus: "parseInt ''-5'' = Some (- 5) \<and> (- 5::int) \<noteq> 0"
    by code_simp
  note A = PlantForm_submission_guards_frequency_default [of ?blank ?add "[]" ?url "''abc''"]
  note B = PlantForm_submission_guards_frequency_default [of ?minus ?add "[]" ?url "''abc''"]
  note C = PlantForm_submission_guards_frequency_default [of ?fern ?add "[]" ?url "''abc''"]
  note D = PlantForm_submission_guards_frequency_default
    [of initial_formData ?add "[]" ?url "''abc''"]
  note E = PlantForm_submission_guards_frequency_default
    [of initial_formData ?add "[]" ?url "''12''"]
  note F = PlantForm_submission_guards_frequency_default
    [of initial_formData ?add "[]" ?url "''-5''"]
  from A [THEN conjunct1] blank
  have 1: "handleSubmit ?add ?blank [] = [] \<and> requestSubmit ?url ?add ?blank [] = []"
    by (rule mp)
  from B [THEN conjunct2, THEN conjunct2, THEN conjunct1] low
  have 2: "requestSubmit ?url ?add ?minus [] = []"
    by (rule mp)
  from C [THEN conjunct2, THEN conjunct2, THEN conjunct2, THEN conjunct2, THEN conjunct1] fern
  have 3: "requestSubmit ?url ?add ?fern [] = ?add ?fern []"
    by (rule mp)
  from D [THEN conjunct2, THEN conjunct2, THEN conjunct2, THEN conjunct2, THEN conjunct2,
      THEN conjunct1] abc
  have 4: "wateringFrequency (wateringFrequency_onChange ''abc'' initial_formData) = 1"
    by (rule mp)
  from E [THEN conjunct2, THEN conjunct2, THEN conjunct2, THEN conjunct2, THEN conjunct2,
      THEN conjunct2, THEN conjunct1, THEN spec, of 12] twelve
  have 5: "wateringFrequency (wateringFrequency_onChange ''12'' initial_formData) = 12"
    by (rule mp)
  from F [THEN conjunct2, THEN conjunct2, THEN conjunct2, THEN conjunct2, THEN conjunct2,
      THEN conjunct2, THEN conjunct1, THEN spec, of "- 5"] minus
  have 6: "wateringFrequency (wateringFrequency_onChange ''-5'' initial_formData) = - 5"
    by (rule mp)
  from 1 [THEN conjunct1] 1 [THEN conjunct2] 2 3 4 5 6 show ?thesis by (intro conjI)
qed

subsection \<open>The next watering date\<close>

lemma calculateNextWatering_offset_unchanged:
  assumes "offset_unchanged c n"
  shows "calculateNextWatering c n = today c + n"
proof -
  have "setDate_getDate_plus c (now c) n = now c + n * msPerDay"
    using assms
    by (simp add: setDate_getDate_plus_def UTC_def offset_unchanged_def LocalTime_def)
  then show ?thesis
    by (simp add: calculateNextWatering_def today_def isoDate_def msPerDay_def)
qed

lemma offset_unchanged_fixed_zone: "offset_unchanged (fixed_zone off t) n"
  by (simp add: offset_unchanged_def fixed_zone_def)

text \<open>
  C4, at a clock reading before a change of the zone's offset.  In Europe/Berlin at
  2024-03-30 00:30 UTC (01:30 local time, day 19812) with the frequency 7, the local
  date seven days later is 2024-04-06 01:30 in summer time, which is 2024-04-05 23:30
  UTC: the computation returns day 19818, six days after \<open>today\<close>.
\<close>

theorem calculateNextWatering_berlin_summer_time:
  "today (berlin_2024 1711758600000) = 19812 \<and>
   calculateNextWatering (berlin_2024 1711758600000) 7 = 19818"
  by (simp add: today_def calculateNextWatering_def setDate_getDate_plus_def UTC_def
        LocalTime_def isoDate_def msPerDay_def berlin_2024_def)

subsection \<open>addPlant\<close>

lemma addPlant_appends:
  "\<exists>p. addPlant c newPlant plants = plants @ [p] \<and>
       plant_draft.truncate p = newPlant \<and>
       plant_id p = now c \<and> lastWatered p = today c \<and> createdAt p = today c \<and>
       nextWatering p = calculateNextWatering c (wateringFrequency newPlant)"
  by (cases newPlant)
     (simp add: addPlant_def plant_draft.extend_def plant.fields_def plant_draft.truncate_def)

lemma addPlant_invariant_offset_unchanged:
  assumes "offset_unchanged c (wateringFrequency newPlant)"
  shows "\<exists>p. addPlant c newPlant plants = plants @ [p] \<and>
       wateringFrequency p = wateringFrequency newPlant \<and>
       lastWatered p = today c \<and>
       nextWatering p = lastWatered p + wateringFrequency p"
  using calculateNextWatering_offset_unchanged [OF assms]
  by (cases newPlant)
     (simp add: addPlant_def plant_draft.extend_def plant.fields_def)

text \<open>
  C3, at the same clock reading.  Submitting the form's defaults with a name appends one
  entry with frequency 7, \<open>lastWatered\<close> on day 19812 and \<open>nextWatering\<close> on day 19818,
  so \<open>nextWatering\<close> is not \<open>lastWatered\<close> plus the frequency.
\<close>

theorem addPlant_berlin_summer_time:
  "map wateringFrequency
     (addPlant (berlin_2024 1711758600000) (name_onChange ''Fern'' initial_formData) []) = [7] \<and>
   map lastWatered
     (addPlant (berlin_2024 1711758600000) (name_onChange ''Fern'' initial_formData) []) = [19812] \<and>
   map nextWatering
     (addPlant (berlin_2024 1711758600000) (name_onChange ''Fern'' initial_formData) []) = [19818]"
  by code_simp

subsection \<open>waterPlant\<close>

lemma spread_watered:
  "spread p (no_keys\<lparr>u_lastWatered := Some a, u_nextWatering := Some b\<rparr>) =
     p\<lparr>lastWatered := a, nextWatering := b\<rparr>"
  by (cases p) (simp add: spread_def key_of_spread_def no_keys_def)

lemma find_first_distinct:
  assumes "distinct (map plant_id plants)" and "p \<in> set plants"
  shows "find (\<lambda>q. plant_id q = plant_id p) plants = Some p"
  using assms by (induction plants) (auto simp: image_iff)

lemma find_absent: "plantId \<notin> plant_id ` set plants \<Longrightarrow> find (\<lambda>p. plant_id p = plantId) plants = None"
  by (induction plants) auto

lemma waterPlant_absent:
  "plantId \<notin> plant_id ` set plants \<Longrightarrow> waterPlant c plantId plants = plants"
  by (simp add: waterPlant_def find_absent)

text \<open>
  Where the ids of the collection are distinct and the zone's offset does not change
  within the watering period of the entry with the given id, \<open>waterPlant\<close> sets that
  entry's \<open>lastWatered\<close> to \<open>today\<close> and its \<open>nextWatering\<close> to \<open>today\<close> plus its own
  watering frequency, whatever the two fields held before; its other fields and all
  other entries are as they were.  When no entry has the id, the collection is
  returned unchanged.
\<close>

lemma waterPlant_offset_unchanged_distinct_ids:
  assumes "distinct (map plant_id plants)"
    and "\<forall>p \<in> set plants. plant_id p = plantId \<longrightarrow> offset_unchanged c (wateringFrequency p)"
  shows "(plantId \<notin> plant_id ` set plants \<longrightarrow> waterPlant c plantId plants = plants) \<and>
    length (waterPlant c plantId plants) = length plants \<and>
    (\<forall>i < length plants.
       (plant_id (plants ! i) \<noteq> plantId \<longrightarrow> waterPlant c plantId plants ! i = plants ! i) \<and>
       (plant_id (plants ! i) = plantId \<longrightarrow>
          waterPlant c plantId plants ! i =
            (plants ! i)\<lparr>lastWatered := today c,
                          nextWatering := today c + wateringFrequency (plants ! i)\<rparr>))"
proof (cases "plantId \<in> plant_id ` set plants")
  case False
  then have "waterPlant c plantId plants = plants"
    by (rule waterPlant_absent)
  moreover from False have "\<forall>i < length plants. plant_id (plants ! i) \<noteq> plantId"
    by (metis image_eqI nth_mem)
  ultimately show ?thesis by simp
next
  case True
  then obtain q where q: "q \<in> set plants" "plant_id q = plantId"
    by auto
  with assms(1) have fnd: "find (\<lambda>p. plant_id p = plantId) plants = Some q"
    using find_first_distinct by blast
  from q assms(2) have next_q: "calculateNextWatering c (wateringFrequency q) =
      today c + wateringFrequency q"
    by (simp add: calculateNextWatering_offset_unchanged)
  let ?u = "no_keys\<lparr>u_lastWatered := Some (today c),
                     u_nextWatering := Some (today c + wateringFrequency q)\<rparr>"
  have wp: "waterPlant c plantId plants = updatePlant plantId ?u plants"
    by (simp add: waterPlant_def fnd next_q)
  have same: "plants ! i = q" if "i < length plants" "plant_id (plants ! i) = plantId" for i
  proof -
    from that(1) have "plants ! i \<in> set plants" by simp
    with assms(1) q that(2) show ?thesis
      by (metis distinct_map inj_on_eq_iff)
  qed
  have "\<forall>i < length plants.
       (plant_id (plants ! i) \<noteq> plantId \<longrightarrow> waterPlant c plantId plants ! i = plants ! i) \<and>
       (plant_id (plants ! i) = plantId \<longrightarrow>
          waterPlant c plantId plants ! i =
            (plants ! i)\<lparr>lastWatered := today c,
                          nextWatering := today c + wateringFrequency (plants ! i)\<rparr>)"
  proof (intro allI impI conjI)
    fix i assume "i < length plants" "plant_id (plants ! i) \<noteq> plantId"
    then show "waterPlant c plantId plants ! i = plants ! i"
      by (simp add: wp updatePlant_def)
  next
    fix i assume i: "i < length plants" "plant_id (plants ! i) = plantId"
    then have "plants ! i = q" by (rule same)
    with i show "waterPlant c plantId plants ! i =
        (plants ! i)\<lparr>lastWatered := today c,
                      nextWatering := today c + wateringFrequency (plants ! i)\<rparr>"
      by (simp add: wp updatePlant_def spread_watered)
  qed
  moreover have "length (waterPlant c plantId plants) = length plants"
    by (simp add: wp updatePlant_length)
  ultimately show ?thesis using True by simp
qed

text \<open>
  On a collection in which two entries share an id, \<open>waterPlant\<close> reads the frequency
  of the first entry with the id and writes the dates into every entry with it: the
  second entry, whose frequency is 10, gets \<open>nextWatering\<close> three days after
  \<open>lastWatered\<close>.
\<close>

lemma waterPlant_shared_id_first_frequency:
  "map wateringFrequency
     (waterPlant (fixed_zone 0 (20 * msPerDay)) 1
        [example_plant 1 ''Rose'' ''Flowering'' 3 10, example_plant 1 ''Basil'' ''Herb'' 10 11]) =
     [3, 10] \<and>
   map lastWatered
     (waterPlant (fixed_zone 0 (20 * msPerDay)) 1
        [example_plant 1 ''Rose'' ''Flowering'' 3 10, example_plant 1 ''Basil'' ''Herb'' 10 11]) =
     [20, 20] \<and>
   map nextWatering
     (waterPlant (fixed_zone 0 (20 * msPerDay)) 1
        [example_plant 1 ''Rose'' ''Flowering'' 3 10, example_plant 1 ''Basil'' ''Herb'' 10 11]) =
     [23, 23]"
  by code_simp

text \<open>
  C2, at a clock reading before a change of the zone's offset.  In Europe/Berlin at
  2024-03-30 00:30 UTC (01:30 local time, day 19812), in a collection of two entries
  with the distinct ids 1 and 2, watering the entry with id 1, whose frequency is 7,
  sets its \<open>lastWatered\<close> to day 19812 and its \<open>nextWatering\<close> to day 19818: six days
  after \<open>lastWatered\<close>, not seven.  The other entry keeps its dates.
\<close>

theorem waterPlant_berlin_summer_time:
  "map wateringFrequency
     (waterPlant (berlin_2024 1711758600000) 1
        [example_plant 1 ''Rose'' ''Flowering'' 7 19810,
         example_plant 2 ''Basil'' ''Herb'' 2 19811]) = [7, 2] \<and>
   map lastWatered
     (waterPlant (berlin_2024 1711758600000) 1
        [example_plant 1 ''Rose'' ''Flowering'' 7 19810,
         example_plant 2 ''Basil'' ''Herb'' 2 19811]) = [19812, 19809] \<and>
   map nextWatering
     (waterPlant (berlin_2024 1711758600000) 1
        [example_plant 1 ''Rose'' ''Flowering'' 7 19810,
         example_plant 2 ''Basil'' ''Herb'' 2 19811]) = [19818, 19811]"
  by code_simp

subsection \<open>JSON round trip\<close>

lemma char_of_charCode: "char_of (charCode c) = c"
  by (simp add: charCode_def)

lemma charCode_inj: "charCode a = charCode b \<Longrightarrow> a = b"
  by (simp add: charCode_def)

lemma charCode_hexDigit:
  "d < 16 \<Longrightarrow> charCode (hexDigit d) = (if d < 10 then 48 + d else 87 + d)"
  by (simp add: hexDigit_def charCode_char_of)

lemma digit_of_hexDigit: "d < 16 \<Longrightarrow> digit_of (hexDigit d) = Some d"
  by (auto simp add: digit_of_def charCode_hexDigit)

lemma isDigit_hexDigit: "d < R \<Longrightarrow> R \<le> 16 \<Longrightarrow> isDigit R (hexDigit d)"
  by (simp add: isDigit_def digit_of_hexDigit)

lemma mathInt_snoc:
  "mathInt R (Z @ [ch]) = mathInt R Z * R + (case digit_of ch of None \<Rightarrow> 0 | Some d \<Rightarrow> d)"
  by (simp add: mathInt_def)

lemma decimal_lt10: "n < 10 \<Longrightarrow> decimal n = [hexDigit n]"
  by (simp add: decimal.simps)

lemma decimal_ge10: "10 \<le> n \<Longrightarrow> decimal n = decimal (n div 10) @ [hexDigit (n mod 10)]"
  by (subst decimal.simps) simp

lemma mathInt_decimal: "mathInt 10 (decimal n) = n"
proof (induction n rule: decimal.induct)
  case (1 n)
  show ?case
  proof (cases "n < 10")
    case True
    then show ?thesis
      by (simp add: decimal_lt10 mathInt_def digit_of_hexDigit)
  next
    case False
    with 1 have "mathInt 10 (decimal (n div 10)) = n div 10" by simp
    with False show ?thesis
      by (simp add: decimal_ge10 mathInt_snoc digit_of_hexDigit)
  qed
qed

lemma decimal_all_digits: "list_all (isDigit 10) (decimal n)"
proof (induction n rule: decimal.induct)
  case (1 n)
  show ?case
  proof (cases "n < 10")
    case True
    then show ?thesis by (simp add: decimal_lt10 isDigit_hexDigit)
  next
    case False
    with 1 show ?thesis
      by (simp add: decimal_ge10 isDigit_hexDigit)
  qed
qed

text \<open>The first digit: zero only for the number zero.\<close>

lemma decimal_head:
  "\<exists>d ds. decimal n = hexDigit d # ds \<and> d < 10 \<and> (d = 0 \<longrightarrow> n = 0 \<and> ds = [])"
proof (induction n rule: decimal.induct)
  case (1 n)
  show ?case
  proof (cases "n < 10")
    case True
    then show ?thesis by (auto simp add: decimal_lt10)
  next
    case False
    with 1 obtain d ds where h: "decimal (n div 10) = hexDigit d # ds" "d < 10"
        "d = 0 \<longrightarrow> n div 10 = 0 \<and> ds = []"
      by auto
    from False have "n div 10 \<noteq> 0" by simp
    with h have "d \<noteq> 0" by auto
    with h False show ?thesis
      by (auto simp add: decimal_ge10)
  qed
qed

lemma takeWhile_digits:
  assumes "list_all (isDigit 10) ds" and "number_end rest"
  shows "takeWhile (isDigit 10) (ds @ rest) = ds" and "dropWhile (isDigit 10) (ds @ rest) = rest"
proof -
  have t: "takeWhile (isDigit 10) rest = []" and d: "dropWhile (isDigit 10) rest = rest"
    using assms(2) by (cases rest; simp add: number_end_def)+
  from assms(1) show "takeWhile (isDigit 10) (ds @ rest) = ds"
    by (induction ds) (simp_all add: t)
  from assms(1) show "dropWhile (isDigit 10) (ds @ rest) = rest"
    by (induction ds) (simp_all add: d)
qed

lemma hexDigit_eq_zero: "d < 10 \<Longrightarrow> hexDigit d = CHR ''0'' \<longleftrightarrow> d = 0"
  by (simp add: char_eq_iff [of "hexDigit d"] charCode_hexDigit) (simp add: charCode_def)

lemma parse_int_part_decimal:
  assumes "number_end rest"
  shows "parse_int_part (decimal n @ rest) = Some (decimal n, rest)"
proof -
  obtain d ds where h: "decimal n = hexDigit d # ds" "d < 10" "d = 0 \<longrightarrow> n = 0 \<and> ds = []"
    using decimal_head by blast
  have all: "list_all (isDigit 10) ds"
    using decimal_all_digits [of n] h(1) by simp
  show ?thesis
  proof (cases "d = 0")
    case True
    with h show ?thesis
      by (simp add: parse_int_part_def hexDigit_eq_zero)
  next
    case False
    with h all assms show ?thesis
      by (simp add: parse_int_part_def hexDigit_eq_zero isDigit_hexDigit takeWhile_digits)
  qed
qed

lemma parse_frac_end: "number_end rest \<Longrightarrow> parse_frac rest = Some ([], rest)"
  by (cases rest) (simp_all add: parse_frac_def number_end_def)

lemma parse_exp_end: "number_end rest \<Longrightarrow> parse_exp rest = Some ([], rest)"
  by (cases rest) (simp_all add: parse_exp_def number_end_def)

lemma decimal_not_minus: "\<not> startsWith (decimal n @ rest) ''-''"
proof -
  obtain d ds where h: "decimal n = hexDigit d # ds" "d < 10"
    using decimal_head by blast
  have "hexDigit d \<noteq> CHR ''-''"
    using h(2) by (simp add: char_eq_iff [of "hexDigit d"] charCode_hexDigit) (simp add: charCode_def)
  with h show ?thesis by simp
qed

lemma parse_number_NumberToString:
  assumes "number_end rest"
  shows "parse_number (NumberToString i @ rest) = Some (JNumber i, rest)"
proof (cases "i < 0")
  case True
  then show ?thesis
    using assms
    by (simp add: parse_number_def NumberToString_def parse_int_part_decimal parse_frac_end
        parse_exp_end mathInt_decimal)
next
  case False
  then show ?thesis
    using assms
    by (simp add: parse_number_def NumberToString_def parse_int_part_decimal parse_frac_end
        parse_exp_end mathInt_decimal decimal_not_minus)
qed

lemma isDigit10_code: "isDigit 10 c \<longleftrightarrow> 48 \<le> charCode c \<and> charCode c \<le> 57"
  by (auto simp add: isDigit_def digit_of_def)

lemma value_end_number_end: "value_end rest \<Longrightarrow> number_end rest"
  by (cases rest) (auto simp add: value_end_def number_end_def isDigit10_code charCode_def)

lemma parse_chars_QuoteJSONChar:
  assumes "parse_chars T = Some (s, rest)"
  shows "parse_chars (QuoteJSONChar c @ T) = Some (c # s, rest)"
proof -
  consider (short) "c \<in> {CHR 0x22, CHR 0x5C, CHR 0x08, CHR 0x09, CHR 0x0A, CHR 0x0C, CHR 0x0D}"
    | (ctrl) "c \<notin> {CHR 0x22, CHR 0x5C, CHR 0x08, CHR 0x09, CHR 0x0A, CHR 0x0C, CHR 0x0D}"
        "charCode c < 32"
    | (plain) "c \<notin> {CHR 0x22, CHR 0x5C, CHR 0x08, CHR 0x09, CHR 0x0A, CHR 0x0C, CHR 0x0D}"
        "\<not> charCode c < 32"
    by blast
  then show ?thesis
  proof cases
    case short
    with assms show ?thesis
      by (auto simp add: QuoteJSONChar_def unescape_def)
  next
    case ctrl
    let ?h1 = "hexDigit (charCode c div 16)" and ?h2 = "hexDigit (charCode c mod 16)"
    from ctrl(2) have d1: "charCode c div 16 < 16" and d2: "charCode c mod 16 < 16"
      by simp_all
    have zero: "digit_of (CHR ''0'') = Some 0"
      by (simp add: digit_of_def charCode_def)
    have dig: "list_all (isDigit 16) [CHR ''0'', CHR ''0'', ?h1, ?h2]"
      using d1 d2 by (simp add: isDigit_def zero digit_of_hexDigit)
    have val: "mathInt 16 [CHR ''0'', CHR ''0'', ?h1, ?h2] = charCode c"
      using d1 d2 by (simp add: mathInt_def zero digit_of_hexDigit)
    have u: "utf8 (charCode c) = [c]"
      using ctrl(2) by (simp add: utf8_def char_of_charCode)
    from ctrl have q: "QuoteJSONChar c = [CHR 0x5C, CHR ''u'', CHR ''0'', CHR ''0'', ?h1, ?h2]"
      by (simp add: QuoteJSONChar_def)
    show ?thesis
      using assms dig by (simp add: q val u)
  next
    case plain
    with assms show ?thesis
      by (simp add: QuoteJSONChar_def)
  qed
qed

lemma parse_chars_quoted:
  "parse_chars (concat (map QuoteJSONChar s) @ CHR 0x22 # rest) = Some (s, rest)"
  by (induction s) (simp_all add: parse_chars_QuoteJSONChar)

lemma skip_ws_start: "\<not> isJSONWhiteSpace c \<Longrightarrow> skip_ws (c # r) = c # r"
  by (simp add: skip_ws_def)

lemma parse_value_JString:
  "parse_value (Suc n) (QuoteJSONString s @ rest) = Some (JString s, rest)"
  by (simp add: QuoteJSONString_def skip_ws_def isJSONWhiteSpace_def parse_chars_quoted)

lemma parse_value_number_start:
  assumes "c = CHR ''-'' \<or> isDigit 10 c"
  shows "parse_value (Suc n) (c # r) = parse_number (c # r)"
proof -
  have code: "charCode c = 45 \<or> (48 \<le> charCode c \<and> charCode c \<le> 57)"
    using assms by (auto simp add: isDigit10_code charCode_def)
  then have "\<not> isJSONWhiteSpace c" "c \<noteq> CHR ''[''" "c \<noteq> CHR ''{''" "c \<noteq> CHR 0x22"
      "c \<noteq> CHR ''n''" "c \<noteq> CHR ''t''" "c \<noteq> CHR ''f''"
    by (auto simp add: isJSONWhiteSpace_def charCode_def)
  then show ?thesis
    by (simp add: skip_ws_start)
qed

lemma NumberToString_start:
  "\<exists>c cs. NumberToString i = c # cs \<and> (c = CHR ''-'' \<or> isDigit 10 c)"
proof (cases "i < 0")
  case True
  then show ?thesis by (simp add: NumberToString_def)
next
  case False
  obtain d ds where "decimal (nat i) = hexDigit d # ds" "d < 10"
    using decimal_head by blast
  with False show ?thesis
    by (simp add: NumberToString_def isDigit_hexDigit)
qed

lemma parse_value_JNumber:
  assumes "value_end rest"
  shows "parse_value (Suc n) (NumberToString i @ rest) = Some (JNumber i, rest)"
proof -
  obtain c cs where h: "NumberToString i = c # cs" "c = CHR ''-'' \<or> isDigit 10 c"
    using NumberToString_start by blast
  have "parse_value (Suc n) (NumberToString i @ rest) = parse_number (NumberToString i @ rest)"
    using h parse_value_number_start [of c n "cs @ rest"] by simp
  with assms show ?thesis
    by (simp add: parse_number_NumberToString value_end_number_end)
qed

lemma value_start_stringify: "representable v \<Longrightarrow> value_start (JSON_stringify v @ rest)"
proof (cases v)
  case (JNumber i)
  obtain c cs where h: "NumberToString i = c # cs" "c = CHR ''-'' \<or> isDigit 10 c"
    using NumberToString_start by blast
  then have "charCode c = 45 \<or> (48 \<le> charCode c \<and> charCode c \<le> 57)"
    by (auto simp add: isDigit10_code charCode_def)
  then have "\<not> isJSONWhiteSpace c \<and> c \<noteq> CHR '']'' \<and> c \<noteq> CHR ''}''"
    by (auto simp add: isJSONWhiteSpace_def charCode_def)
  with JNumber h show ?thesis
    by (simp add: value_start_def)
qed (simp_all add: value_start_def isJSONWhiteSpace_def QuoteJSONString_def)

lemma value_end_comma: "value_end (CHR '','' # r)" and value_end_bracket: "value_end (CHR '']'' # r)"
  and value_end_brace: "value_end (CHR ''}'' # r)" and value_end_Nil: "value_end []"
  by (simp_all add: value_end_def)

lemma skip_ws_punct:
  "skip_ws (CHR '','' # r) = CHR '','' # r" "skip_ws (CHR '']'' # r) = CHR '']'' # r"
  "skip_ws (CHR ''}'' # r) = CHR ''}'' # r" "skip_ws (CHR '':'' # r) = CHR '':'' # r"
  "skip_ws (CHR 0x22 # r) = CHR 0x22 # r"
  by (simp_all add: skip_ws_def isJSONWhiteSpace_def)

lemma stringify_nonempty: "representable v \<Longrightarrow> JSON_stringify v \<noteq> []"
  using value_start_stringify [of v "[]"] by (auto simp add: value_start_def)

lemma parse_elements_stringify:
  assumes "\<And>v n rest. v \<in> set vs \<Longrightarrow> length (JSON_stringify v) \<le> n \<Longrightarrow> value_end rest \<Longrightarrow>
             parse_value n (JSON_stringify v @ rest) = Some (v, rest)"
    and "vs \<noteq> []" and "length (stringify_elements vs) \<le> n"
  shows "parse_elements n (stringify_elements vs @ rest) = Some (vs, rest)"
  using assms
proof (induction vs arbitrary: n rule: induct_list012)
  case 1
  then show ?case by simp
next
  case (2 v)
  then obtain m where n: "n = Suc m" and m: "length (JSON_stringify v) \<le> m"
    by (cases n) simp_all
  have "parse_value m (JSON_stringify v @ CHR '']'' # rest) = Some (v, CHR '']'' # rest)"
    using 2(1) [of v m] m by (simp add: value_end_bracket)
  then show ?case
    by (simp add: n skip_ws_punct)
next
  case (3 v w vs)
  then obtain m where n: "n = Suc m"
      and m: "length (JSON_stringify v) + 1 + length (stringify_elements (w # vs)) \<le> m + 1"
    by (cases n) simp_all
  have v: "parse_value m (JSON_stringify v @ CHR '','' # stringify_elements (w # vs) @ rest) =
      Some (v, CHR '','' # stringify_elements (w # vs) @ rest)"
    using 3(3) [of v m] m by (simp add: value_end_comma)
  have "parse_elements m (stringify_elements (w # vs) @ rest) = Some (w # vs, rest)"
    using 3(2) [of m] 3(3) m by simp
  with v show ?case
    by (simp add: n skip_ws_punct)
qed

lemma add_member_fresh: "k \<notin> fst ` set ms \<Longrightarrow> add_member k v ms = (k, v) # ms"
proof -
  assume k: "k \<notin> fst ` set ms"
  then have "map_of ms k = None"
    by (simp add: map_of_eq_None_iff)
  moreover from k have "filter (\<lambda>m. fst m \<noteq> k) ms = ms"
    by (induction ms) auto
  ultimately show ?thesis
    by (simp add: add_member_def)
qed

lemma parse_members_stringify:
  assumes "\<And>k v n rest. (k, v) \<in> set ms \<Longrightarrow> length (JSON_stringify v) \<le> n \<Longrightarrow> value_end rest \<Longrightarrow>
             parse_value n (JSON_stringify v @ rest) = Some (v, rest)"
    and "ms \<noteq> []" and "distinct (map fst ms)" and "length (stringify_members ms) \<le> n"
  shows "parse_members n (stringify_members ms @ rest) = Some (ms, rest)"
  using assms
proof (induction ms arbitrary: n rule: induct_list012)
  case 1
  then show ?case by simp
next
  case (2 kv)
  obtain k v where kv: "kv = (k, v)" by (cases kv)
  from 2 obtain m where n: "n = Suc m" and m: "length (JSON_stringify v) \<le> m"
    by (cases n) (simp_all add: kv)
  have "parse_value m (JSON_stringify v @ CHR ''}'' # rest) = Some (v, CHR ''}'' # rest)"
    using 2(1) [of k v m] m by (simp add: kv value_end_brace)
  then show ?case
    by (simp add: n kv QuoteJSONString_def skip_ws_punct parse_chars_quoted)
next
  case (3 kv m2 ms)
  obtain k v where kv: "kv = (k, v)" by (cases kv)
  from 3(6) obtain m where n: "n = Suc m"
      and m: "length (JSON_stringify v) + length (stringify_members (m2 # ms)) \<le> m"
    by (cases n) (simp_all add: kv)
  have v: "parse_value m (JSON_stringify v @ CHR '','' # stringify_members (m2 # ms) @ rest) =
      Some (v, CHR '','' # stringify_members (m2 # ms) @ rest)"
    using 3(3) [of k v m] m by (simp add: kv value_end_comma)
  have "parse_members m (stringify_members (m2 # ms) @ rest) = Some (m2 # ms, rest)"
  proof (rule 3(2))
    fix k' v' n' rest'
    assume "(k', v') \<in> set (m2 # ms)" "length (JSON_stringify v') \<le> n'" "value_end rest'"
    then show "parse_value n' (JSON_stringify v' @ rest') = Some (v', rest')"
      using 3(3) [of k' v' n' rest'] by simp
  next
    show "distinct (map fst (m2 # ms))"
      using 3(5) by simp
  next
    show "length (stringify_members (m2 # ms)) \<le> m"
      using m by simp
  qed simp
  moreover have "add_member k v (m2 # ms) = (k, v) # m2 # ms"
    using 3(5) by (intro add_member_fresh) (auto simp add: kv)
  ultimately show ?case
    using v by (simp add: n kv QuoteJSONString_def skip_ws_punct parse_chars_quoted)
qed

lemma parse_value_array:
  assumes "\<not> isJSONWhiteSpace c" and "c \<noteq> CHR '']''"
  shows "parse_value (Suc m) (CHR ''['' # c # r) =
     (case parse_elements m (c # r) of None \<Rightarrow> None | Some (vs, rest) \<Rightarrow> Some (JArray vs, rest))"
  using assms by (simp add: skip_ws_def isJSONWhiteSpace_def)

lemma parse_value_object:
  "parse_value (Suc m) (CHR ''{'' # CHR 0x22 # r) =
     (case parse_members m (CHR 0x22 # r) of None \<Rightarrow> None | Some (ms, rest) \<Rightarrow> Some (JObject ms, rest))"
  by (simp add: skip_ws_def isJSONWhiteSpace_def)

theorem parse_value_stringify:
  assumes "representable v" and "length (JSON_stringify v) \<le> n" and "value_end rest"
  shows "parse_value n (JSON_stringify v @ rest) = Some (v, rest)"
  using assms
proof (induction v arbitrary: n rest)
  case JNull
  then obtain m where "n = Suc m" by (cases n) simp_all
  then show ?case
    by (simp add: skip_ws_def isJSONWhiteSpace_def)
next
  case (JBool b)
  then obtain m where "n = Suc m" by (cases n) (simp_all split: if_splits)
  then show ?case
    by (simp add: skip_ws_def isJSONWhiteSpace_def)
next
  case (JNumber i)
  obtain c cs where "NumberToString i = c # cs"
    using NumberToString_start by blast
  with JNumber obtain m where n: "n = Suc m" by (cases n) simp_all
  from JNumber(3) have "parse_value (Suc m) (NumberToString i @ rest) = Some (JNumber i, rest)"
    by (rule parse_value_JNumber)
  then show ?case
    by (simp only: n JSON_stringify.simps)
next
  case (JFloat x)
  then show ?case by simp
next
  case (JString s)
  then obtain m where n: "n = Suc m" by (cases n) (simp_all add: QuoteJSONString_def)
  show ?case
    by (simp only: n JSON_stringify.simps parse_value_JString)
next
  case (JArray vs)
  from JArray(3) obtain m where n: "n = Suc m" and m: "length (stringify_elements vs) \<le> m"
    by (cases n) simp_all
  show ?case
  proof (cases "vs = []")
    case True
    then show ?thesis
      by (simp add: n skip_ws_def isJSONWhiteSpace_def)
  next
    case False
    then obtain v vs' where vs: "vs = v # vs'" by (cases vs) auto
    have "value_start (stringify_elements vs @ rest)"
      using value_start_stringify [of v] JArray(2)
      by (cases vs') (simp_all add: vs)
    then obtain c r where cr: "stringify_elements vs @ rest = c # r"
        "\<not> isJSONWhiteSpace c" "c \<noteq> CHR '']''"
      by (cases "stringify_elements vs @ rest") (auto simp add: value_start_def)
    have "parse_elements m (stringify_elements vs @ rest) = Some (vs, rest)"
      using JArray(1,2) False m by (intro parse_elements_stringify) auto
    then have pe: "parse_elements m (c # r) = Some (vs, rest)"
      by (simp only: cr(1))
    have "parse_value (Suc m) (CHR ''['' # c # r) = Some (JArray vs, rest)"
      by (simp only: parse_value_array [OF cr(2,3)] pe option.case prod.case)
    then show ?thesis
      by (simp only: n JSON_stringify.simps append_Cons cr(1))
  qed
next
  case (JObject ms)
  from JObject(3) obtain m where n: "n = Suc m" and m: "length (stringify_members ms) \<le> m"
    by (cases n) simp_all
  show ?case
  proof (cases "ms = []")
    case True
    then show ?thesis
      by (simp add: n skip_ws_def isJSONWhiteSpace_def)
  next
    case False
    then obtain k v ms' where ms: "ms = (k, v) # ms'" by (cases ms) auto
    obtain r where cr: "stringify_members ms @ rest = CHR 0x22 # r"
      by (cases ms') (simp_all add: ms QuoteJSONString_def)
    have "parse_members m (stringify_members ms @ rest) = Some (ms, rest)"
    proof (rule parse_members_stringify)
      fix k v n rest
      assume "(k, v) \<in> set ms" "length (JSON_stringify v) \<le> n" "value_end rest"
      with JObject(1) [of "(k, v)" v n rest] JObject(2)
      show "parse_value n (JSON_stringify v @ rest) = Some (v, rest)"
        by fastforce
    qed (use False JObject(2) m in auto)
    then have pm: "parse_members m (CHR 0x22 # r) = Some (ms, rest)"
      by (simp only: cr)
    have "parse_value (Suc m) (CHR ''{'' # CHR 0x22 # r) = Some (JObject ms, rest)"
      by (simp only: parse_value_object pm option.case prod.case)
    then show ?thesis
      by (simp only: n JSON_stringify.simps append_Cons cr)
  qed
qed

theorem JSON_parse_stringify: "representable v \<Longrightarrow> JSON_parse (JSON_stringify v) = Some v"
  using parse_value_stringify [of v "length (JSON_stringify v)" "[]"]
  by (simp add: JSON_parse_def value_end_Nil skip_ws_def)

subsection \<open>Loading and persisting\<close>

lemma representable_json_of_plants: "representable (json_of_plants date_text plants)"
  by (simp add: json_of_plants_def json_of_plant_def)

lemma json_of_plant_inject:
  assumes "inj date_text" and "json_of_plant date_text p = json_of_plant date_text q"
  shows "p = q"
  using assms by (cases p; cases q) (simp add: json_of_plant_def inj_eq)

text \<open>Where the date texts of different days differ, the JSON value determines the
  collection: equal values have the same plants, with the same ids and field values,
  in the same order.\<close>

lemma json_of_plants_inject:
  assumes "inj date_text" and "json_of_plants date_text ps = json_of_plants date_text qs"
  shows "ps = qs"
proof -
  have "inj (json_of_plant date_text)"
    using assms(1) by (auto intro!: injI dest: json_of_plant_inject)
  with assms(2) show ?thesis
    by (simp add: json_of_plants_def inj_map_eq_map)
qed

lemma load_effect_persist_effect:
  assumes "representable plants"
  shows "load_effect samplePlants (persist_effect plants localStorage) = Inr plants"
  using assms
  by (simp add: load_effect_def persist_effect_def stringify_nonempty JSON_parse_stringify)

text \<open>
  C1, on a persisted empty collection and on a text that is not JSON.  With \<open>[]\<close> under
  the storage key the load effect yields the empty collection, which is not the seed;
  with \<open>{\<close> under the key \<open>JSON.parse\<close> throws and the effect yields no collection.
\<close>

theorem load_effect_empty_array_and_unparseable:
  "load_effect example_seed (Map.empty(storage_key \<mapsto> ''[]'')) = Inr (JArray []) \<and>
   JArray [] \<noteq> example_seed \<and>
   load_effect example_seed (Map.empty(storage_key \<mapsto> ''{'')) = Inl SyntaxError"
  by (simp add: load_effect_def example_seed_def JSON_parse_def skip_ws_def
        isJSONWhiteSpace_def)

text \<open>
  C1, amended.  On initial load: when nothing, or the empty text, is stored under the
  key, the loaded collection is the seed; when a non-empty text is stored, the loaded
  collection is what \<open>JSON.parse\<close> makes of it, and a text it rejects raises
  \<open>SyntaxError\<close> with no collection loaded.  Persisting a collection and loading again
  yields that collection, for every representable JSON value and so for every list of
  plant records; a persisted empty collection is loaded as the empty collection.
\<close>

theorem load_effect_seed_parse_round_trip:
  "(localStorage storage_key = None \<or> localStorage storage_key = Some [] \<longrightarrow>
      load_effect samplePlants localStorage = Inr samplePlants) \<and>
   (\<forall>saved. localStorage storage_key = Some saved \<and> saved \<noteq> [] \<longrightarrow>
      load_effect samplePlants localStorage =
        (case JSON_parse saved of None \<Rightarrow> Inl SyntaxError | Some v \<Rightarrow> Inr v)) \<and>
   (representable plants \<longrightarrow>
      load_effect samplePlants (persist_effect plants localStorage) = Inr plants) \<and>
   load_effect samplePlants (persist_effect (json_of_plants date_text ps) localStorage) =
     Inr (json_of_plants date_text ps) \<and>
   load_effect samplePlants (persist_effect (JArray []) localStorage) = Inr (JArray [])"
proof (intro conjI allI impI)
  assume "localStorage storage_key = None \<or> localStorage storage_key = Some []"
  then show "load_effect samplePlants localStorage = Inr samplePlants"
    by (auto simp add: load_effect_def)
next
  fix saved
  assume "localStorage storage_key = Some saved \<and> saved \<noteq> []"
  then show "load_effect samplePlants localStorage =
      (case JSON_parse saved of None \<Rightarrow> Inl SyntaxError | Some v \<Rightarrow> Inr v)"
    by (simp add: load_effect_def)
next
  assume "representable plants"
  then show "load_effect samplePlants (persist_effect plants localStorage) = Inr plants"
    by (rule load_effect_persist_effect)
next
  show "load_effect samplePlants (persist_effect (json_of_plants date_text ps) localStorage) =
      Inr (json_of_plants date_text ps)"
    by (rule load_effect_persist_effect) (rule representable_json_of_plants)
next
  show "load_effect samplePlants (persist_effect (JArray []) localStorage) = Inr (JArray [])"
    by (rule load_effect_persist_effect) simp
qed

theorem load_effect_seed_parse_round_trip_witness:
  "load_effect example_seed Map.empty = Inr example_seed \<and>
   load_effect example_seed (Map.empty(storage_key \<mapsto> ''[1]'')) = Inr (JArray [JNumber 1]) \<and>
   load_effect example_seed
     (persist_effect (JArray [JObject [(''id'', JNumber 7), (''name'', JString ''Rose'')]])
        Map.empty) =
     Inr (JArray [JObject [(''id'', JNumber 7), (''name'', JString ''Rose'')]])"
proof -
  let ?v = "JArray [JObject [(''id'', JNumber 7), (''name'', JString ''Rose'')]]"
  note A = load_effect_seed_parse_round_trip [of Map.empty example_seed ?v "\<lambda>_. []" "[]"]
  note B = load_effect_seed_parse_round_trip
    [of "Map.empty(storage_key \<mapsto> ''[1]'')" example_seed ?v "\<lambda>_. []" "[]"]
  have none: "Map.empty storage_key = None \<or> Map.empty storage_key = Some []"
    by simp
  have some: "(Map.empty(storage_key \<mapsto> ''[1]'')) storage_key = Some ''[1]'' \<and> ''[1]'' \<noteq> []"
    by simp
  have parse: "JSON_parse ''[1]'' = Some (JArray [JNumber 1])"
    by (simp add: JSON_parse_def skip_ws_def isJSONWhiteSpace_def parse_number_def
        parse_int_part_def parse_frac_def parse_exp_def isDigit_def digit_of_def charCode_def
        mathInt_def)
  have rep: "representable ?v"
    by simp
  from A [THEN conjunct1] none
  have 1: "load_effect example_seed Map.empty = Inr example_seed"
    by (rule mp)
  from B [THEN conjunct2, THEN conjunct1, THEN spec, of "''[1]''"] some
  have "load_effect example_seed (Map.empty(storage_key \<mapsto> ''[1]'')) =
      (case JSON_parse ''[1]'' of None \<Rightarrow> Inl SyntaxError | Some v \<Rightarrow> Inr v)"
    by (rule mp)
  then have 2: "load_effect example_seed (Map.empty(storage_key \<mapsto> ''[1]'')) =
      Inr (JArray [JNumber 1])"
    by (simp only: parse option.case)
  from A [THEN conjunct2, THEN conjunct2, THEN conjunct1] rep
  have 3: "load_effect example_seed (persist_effect ?v Map.empty) = Inr ?v"
    by (rule mp)
  from 1 2 3 show ?thesis by (intro conjI)
qed

end
